theory Spec2Isabelle
  imports Main "HOL-Library.Sublist"
begin

section \<open>Strings and the text predicates of lib.js\<close>

text \<open>
  A JavaScript string is modelled as a \<^typ>\<open>string\<close>. \<open>str_includes s t\<close> is
  \<^verbatim>\<open>s.includes(t)\<close>: \<open>t\<close> occurs in \<open>s\<close> as a contiguous run of characters.
\<close>

fun str_includes :: "string \<Rightarrow> string \<Rightarrow> bool" where
  "str_includes [] t = (t = [])"
| "str_includes (c # cs) t = (prefix t (c # cs) \<or> str_includes cs t)"

text \<open>
  \<^verbatim>\<open>new RegExp(source)\<close> belongs to the language runtime, not to the repository. It is a
  parameter of the model: a function from the pattern source to either the message of the
  SyntaxError it throws (\<open>Inl\<close>) or the compiled pattern (\<open>Inr\<close>), which is represented by
  its \<^verbatim>\<open>test\<close> method.
\<close>

type_synonym regexp = "string \<Rightarrow> bool"
type_synonym regexp_ctor = "string \<Rightarrow> string + regexp"

text \<open>
  \<^verbatim>\<open>detectCompletion(lastMessage, promiseMode, completionPromise)\<close>. The message is
  \<open>None\<close> for \<^verbatim>\<open>null\<close>/\<^verbatim>\<open>undefined\<close>. The result pairs the returned boolean with the
  lines written by \<^verbatim>\<open>console.error\<close>.
\<close>

definition detectCompletion ::
  "regexp_ctor \<Rightarrow> string option \<Rightarrow> string \<Rightarrow> string \<Rightarrow> bool \<times> string list" where
  "detectCompletion RegExp lastMessage promiseMode completionPromise =
     (case lastMessage of
        None \<Rightarrow> (False, [])
      | Some msg \<Rightarrow>
          if msg = [] then (False, [])
          else if promiseMode = ''regex'' then
            (case RegExp completionPromise of
               Inr re \<Rightarrow> (re msg, [])
             | Inl err \<Rightarrow> (False, [''Invalid completion regex: '' @ err]))
          else if promiseMode = ''tag'' then
            (str_includes msg (''<promise>'' @ completionPromise @ ''</promise>''), [])
          else (str_includes msg completionPromise, []))"

text \<open>
  The file system is a map from paths to contents. \<^verbatim>\<open>readFileSafe(filePath)\<close> and
  \<^verbatim>\<open>checkHardStop(todoPath, token)\<close> take the path as an option (\<open>None\<close> for
  \<^verbatim>\<open>null\<close>); the empty string is falsy as well.
\<close>

type_synonym filesystem = "string \<rightharpoonup> string"

definition checkHardStop :: "filesystem \<Rightarrow> string option \<Rightarrow> string \<Rightarrow> bool" where
  "checkHardStop fs todoPath token =
     (case todoPath of
        None \<Rightarrow> False
      | Some p \<Rightarrow>
          if p = [] then False
          else (case fs p of
                  None \<Rightarrow> False
                | Some content \<Rightarrow> str_includes content token))"

definition readFileSafe :: "filesystem \<Rightarrow> string option \<Rightarrow> string" where
  "readFileSafe fs filePath =
     (case filePath of
        None \<Rightarrow> []
      | Some p \<Rightarrow>
          if p = [] then []
          else (case fs p of
                  None \<Rightarrow> []
                | Some content \<Rightarrow> content))"

section \<open>Session identifier extraction\<close>

text \<open>
  Values produced by \<^verbatim>\<open>JSON.parse\<close>. A number is kept as mantissa and decimal exponent.
  An object keeps its members in source order. \<open>JNull\<close> also stands for \<^verbatim>\<open>undefined\<close>,
  which the code never tells apart from \<^verbatim>\<open>null\<close>.
\<close>

datatype json =
    JNull
  | JBool bool
  | JNumber int int
  | JString string
  | JArray "json list"
  | JObject "(string \<times> json) list"

text \<open>JavaScript truthiness, as used by \<^verbatim>\<open>if (x)\<close>, \<^verbatim>\<open>!x\<close> and \<^verbatim>\<open>x || y\<close>.\<close>

fun truthy :: "json \<Rightarrow> bool" where
  "truthy JNull = False"
| "truthy (JBool b) = b"
| "truthy (JNumber m e) = (m \<noteq> 0)"
| "truthy (JString s) = (s \<noteq> [])"
| "truthy (JArray xs) = True"
| "truthy (JObject kvs) = True"

definition js_or :: "json \<Rightarrow> json \<Rightarrow> json" where
  "js_or a b = (if truthy a then a else b)"

text \<open>\<^verbatim>\<open>typeof v === "object"\<close> holds for objects, arrays and \<^verbatim>\<open>null\<close>.\<close>

fun typeof_object :: "json \<Rightarrow> bool" where
  "typeof_object JNull = True"
| "typeof_object (JArray xs) = True"
| "typeof_object (JObject kvs) = True"
| "typeof_object v = False"

text \<open>
  Property read \<^verbatim>\<open>v.key\<close> for the keys the code reads (\<open>session_id\<close>, \<open>session\<close>,
  \<open>id\<close>, \<open>type\<close>): the last member of that name in an object, \<^verbatim>\<open>undefined\<close> otherwise.
\<close>

fun get_prop :: "json \<Rightarrow> string \<Rightarrow> json" where
  "get_prop (JObject kvs) key = (case map_of (rev kvs) key of Some v \<Rightarrow> v | None \<Rightarrow> JNull)"
| "get_prop v key = JNull"

abbreviation LF :: char where "LF \<equiv> CHR 0x0A"
abbreviation CR :: char where "CR \<equiv> CHR 0x0D"

text \<open>\<^verbatim>\<open>text.split(/\r?\n/)\<close>.\<close>

fun split_lines :: "string \<Rightarrow> string list" where
  "split_lines [] = [[]]"
| "split_lines [c] = (if c = LF then [[], []] else [[c]])"
| "split_lines (c # d # cs) =
     (if c = CR \<and> d = LF then [] # split_lines cs
      else if c = LF then [] # split_lines (d # cs)
      else (case split_lines (d # cs) of
              l # ls \<Rightarrow> (c # l) # ls
            | [] \<Rightarrow> [[c]]))"

text \<open>
  \<^verbatim>\<open>String.prototype.trim\<close>, for the white space and line terminators among the code
  units below 256.
\<close>

definition is_space :: "char \<Rightarrow> bool" where
  "is_space c = (c \<in> set [CHR 0x09, CHR 0x0A, CHR 0x0B, CHR 0x0C, CHR 0x0D, CHR 0x20, CHR 0xA0])"

definition trim :: "string \<Rightarrow> string" where
  "trim s = rev (dropWhile is_space (rev (dropWhile is_space s)))"

definition startsWith :: "string \<Rightarrow> string \<Rightarrow> bool" where
  "startsWith s t = prefix t s"

text \<open>
  The pattern \<^verbatim>\<open>/[0-9a-f]{8}-[0-9a-f]{4}-[0-9a-f]{4}-[0-9a-f]{4}-[0-9a-f]{12}/i\<close>.
\<close>

definition is_hex :: "char \<Rightarrow> bool" where
  "is_hex c = (c \<in> set ''0123456789abcdefABCDEF'')"

definition hex_run :: "nat \<Rightarrow> string \<Rightarrow> bool" where
  "hex_run n s = (length s = n \<and> list_all is_hex s)"

definition is_uuid :: "string \<Rightarrow> bool" where
  "is_uuid u =
     (length u = 36
      \<and> hex_run 8 (take 8 u) \<and> u ! 8 = CHR ''-''
      \<and> hex_run 4 (take 4 (drop 9 u)) \<and> u ! 13 = CHR ''-''
      \<and> hex_run 4 (take 4 (drop 14 u)) \<and> u ! 18 = CHR ''-''
      \<and> hex_run 4 (take 4 (drop 19 u)) \<and> u ! 23 = CHR ''-''
      \<and> hex_run 12 (drop 24 u))"

text \<open>\<^verbatim>\<open>line.match(pattern)\<close>: the leftmost match, \<open>None\<close> for \<^verbatim>\<open>null\<close>.\<close>

fun match_uuid :: "string \<Rightarrow> string option" where
  "match_uuid [] = None"
| "match_uuid (c # cs) =
     (if is_uuid (take 36 (c # cs)) then Some (take 36 (c # cs)) else match_uuid cs)"

fun first_uuid_line :: "string list \<Rightarrow> string option" where
  "first_uuid_line [] = None"
| "first_uuid_line (line # rest) =
     (case match_uuid line of
        Some m \<Rightarrow> Some m
      | None \<Rightarrow> first_uuid_line rest)"

definition parseSessionIdFromText :: "string \<Rightarrow> string option" where
  "parseSessionIdFromText text = first_uuid_line (split_lines text)"

text \<open>
  The body of the \<^verbatim>\<open>try\<close> block of \<^verbatim>\<open>parseSessionIdFromJsonLines\<close> after a successful
  parse: \<open>Some\<close> is a \<^verbatim>\<open>return\<close>, \<open>None\<close> falls through to the next line.
\<close>

definition event_session_id :: "json \<Rightarrow> json option" where
  "event_session_id event =
     (if truthy (get_prop event ''session_id'') then Some (get_prop event ''session_id'')
      else if truthy (get_prop event ''session'') \<and> typeof_object (get_prop event ''session'')
              \<and> truthy (get_prop (get_prop event ''session'') ''id'')
        then Some (get_prop (get_prop event ''session'') ''id'')
      else if truthy (get_prop event ''id'') \<and> get_prop event ''type'' = JString ''session''
        then Some (get_prop event ''id'')
      else None)"

text \<open>
  \<^verbatim>\<open>JSON.parse\<close> belongs to the runtime; it is a parameter, \<open>None\<close> when it throws.
\<close>

type_synonym json_parser = "string \<Rightarrow> json option"

fun scan_json_lines :: "json_parser \<Rightarrow> string list \<Rightarrow> json option" where
  "scan_json_lines JSON_parse [] = None"
| "scan_json_lines JSON_parse (line # rest) =
     (if \<not> startsWith (trim line) ''{'' then scan_json_lines JSON_parse rest
      else (case JSON_parse line of
              None \<Rightarrow> scan_json_lines JSON_parse rest
            | Some event \<Rightarrow>
                (case event_session_id event of
                   Some sid \<Rightarrow> Some sid
                 | None \<Rightarrow> scan_json_lines JSON_parse rest)))"

definition parseSessionIdFromJsonLines :: "json_parser \<Rightarrow> string \<Rightarrow> json option" where
  "parseSessionIdFromJsonLines JSON_parse text =
     scan_json_lines JSON_parse (filter (\<lambda>line. line \<noteq> []) (split_lines text))"

text \<open>
  The child process of one \<^verbatim>\<open>runCodexIteration\<close> call either emits \<open>error\<close> (with
  the error's message) or closes with an exit code (\<^verbatim>\<open>null\<close> when a signal killed it) after
  writing its standard output and standard error.
\<close>

datatype child_outcome =
    ChildError string
  | ChildClosed "int option" string string

record codex_result =
  exitCode :: "int option"
  sessionId :: json
  stdout :: string
  stderr :: string

definition of_option :: "json option \<Rightarrow> json" where
  "of_option v = (case v of None \<Rightarrow> JNull | Some j \<Rightarrow> j)"

text \<open>
  The last three statements of \<^verbatim>\<open>runCodexIteration\<close>: the order in which the session
  identifier is resolved.
\<close>

definition resolveSessionId :: "json_parser \<Rightarrow> json \<Rightarrow> string \<Rightarrow> string \<Rightarrow> json" where
  "resolveSessionId JSON_parse resumeSessionId out err =
     (let sessionIdFromJson = of_option (parseSessionIdFromJsonLines JSON_parse (out @ [LF] @ err));
          sessionIdFromText =
            js_or (of_option (map_option JString (parseSessionIdFromText out)))
                  (of_option (map_option JString (parseSessionIdFromText err)))
      in js_or (js_or (js_or sessionIdFromJson sessionIdFromText) resumeSessionId) JNull)"

text \<open>
  \<^verbatim>\<open>runCodexIteration\<close>: \<open>Inl\<close> is the rethrown spawn error. The argument vector of the
  child and the mirroring of its output to the terminal are not modelled.
\<close>

definition runCodexIteration :: "json_parser \<Rightarrow> json \<Rightarrow> child_outcome \<Rightarrow> string + codex_result" where
  "runCodexIteration JSON_parse resumeSessionId child =
     (case child of
        ChildError message \<Rightarrow> Inl message
      | ChildClosed code out err \<Rightarrow>
          Inr \<lparr> exitCode = code,
                sessionId = resolveSessionId JSON_parse resumeSessionId out err,
                stdout = out,
                stderr = err \<rparr>)"

section \<open>The loop state record\<close>

datatype status =
    running
  | completed
  | stopped_max_iterations
  | paused_hard_stop
  | paused_user_interrupt
  | canceled
  | error_spawn
  | error_no_session

record codex_state =
  session_id :: json
  model :: "string option"
  sandbox :: "string option"
  approval :: "string option"
  profile :: "string option"

record todo_state =
  path :: string
  hard_stop_token :: string
  hard_stop_mode :: string
  paused_for_hard_stop :: bool

record artifacts_state =
  dir :: string
  last_message_path :: "string option"
  jsonl_path :: "string option"
  jsonl_events_base :: "string option"
  summary_json_path :: "string option"

record last_result_state =
  exit_code :: "int option"
  detected_promise :: bool

text \<open>One entry of \<open>history\<close>; its fields carry the prefix \<open>h_\<close>.\<close>

record iteration_record =
  h_iteration :: nat
  h_finished_at :: string
  h_exit_code :: "int option"
  h_detected_promise :: bool
  h_last_message_path :: "string option"
  h_jsonl_path :: "string option"

record loop_state =
  loop_id :: string
  created_at :: string
  updated_at :: string
  workspace_root :: string
  prompt :: string
  completion_promise :: string
  promise_mode :: string
  max_iterations :: nat
  same_prompt_each_iteration :: bool
  iteration :: nat
  status :: status
  codex :: codex_state
  todo :: "todo_state option"
  artifacts :: artifacts_state
  history :: "iteration_record list"
  last_result :: "last_result_state option"
  state_path :: string

text \<open>The projection of the state that \<^verbatim>\<open>updateSummary\<close> writes; prefix \<open>s_\<close>.\<close>

record summary =
  s_loop_id :: string
  s_status :: status
  s_iteration :: nat
  s_max_iterations :: nat
  s_completion_promise :: string
  s_promise_mode :: string
  s_history :: "iteration_record list"
  s_workspace_root :: string
  s_artifacts :: artifacts_state
  s_last_result :: "last_result_state option"
  s_updated_at :: string

section \<open>The environment of a run\<close>

text \<open>
  Everything a run takes from outside the repository's code is a field of the environment:
  the runtime's \<^verbatim>\<open>JSON.parse\<close>, \<^verbatim>\<open>RegExp\<close> and \<^verbatim>\<open>path\<close> functions, the clock (the
  \<open>k\<close>-th reading of \<^verbatim>\<open>nowIso()\<close>), and, for the iteration numbered \<open>i\<close>, what the child
  process does, the file system as it is read once that child has closed, the value of
  the interrupt flag at the top of the iteration, and the answer given to
  \<^verbatim>\<open>promptYesNo\<close>.
\<close>

record env =
  js_JSON_parse :: json_parser
  js_RegExp :: regexp_ctor
  path_resolve :: "string list \<Rightarrow> string"
  path_join :: "string list \<Rightarrow> string"
  path_relative :: "string \<Rightarrow> string \<Rightarrow> string"
  path_extname :: "string \<Rightarrow> string"
  path_basename :: "string \<Rightarrow> string \<Rightarrow> string"
  path_dirname :: "string \<Rightarrow> string"
  cwd :: string
  nowIso :: "nat \<Rightarrow> string"
  child :: "nat \<Rightarrow> child_outcome"
  files :: "nat \<Rightarrow> filesystem"
  sigintReceived :: "nat \<Rightarrow> bool"
  promptYesNo :: "nat \<Rightarrow> bool"

text \<open>Decimal rendering of an iteration number inside a template literal.\<close>

fun decimal :: "nat \<Rightarrow> string" where
  "decimal n =
     (if n < 10 then [char_of (48 + n)]
      else decimal (n div 10) @ [char_of (48 + n mod 10)])"

declare decimal.simps [simp del]

definition truthy_str :: "string option \<Rightarrow> bool" where
  "truthy_str v = (case v of None \<Rightarrow> False | Some s \<Rightarrow> s \<noteq> [])"

definition relToWorkspace :: "env \<Rightarrow> string \<Rightarrow> string \<Rightarrow> string" where
  "relToWorkspace e absPath workspaceRoot =
     (let relative = path_relative e workspaceRoot absPath
      in if relative = [] then ''.'' else relative)"

definition computeJsonlPath :: "env \<Rightarrow> string option \<Rightarrow> nat \<Rightarrow> string \<Rightarrow> string option" where
  "computeJsonlPath e jsonlBase iter workspaceRoot =
     (case jsonlBase of
        None \<Rightarrow> None
      | Some base \<Rightarrow>
          if base = [] then None
          else
            let resolved = path_resolve e [workspaceRoot, base]
            in if path_extname e resolved = ''.jsonl''
               then Some (path_join e [path_dirname e resolved,
                      path_basename e resolved ''.jsonl'' @ ''_iter_'' @ decimal iter @ ''.jsonl''])
               else Some (path_join e [resolved, ''events_iter_'' @ decimal iter @ ''.jsonl'']))"

section \<open>Effects: the trace of a run\<close>

text \<open>
  The observable effects of the controller, in the order they happen: a child spawned by
  \<^verbatim>\<open>runCodexIteration\<close> (iteration number, whether the full prompt was sent, the session
  identifier passed for resumption), a state file written by \<^verbatim>\<open>saveState\<close>, a summary
  written by \<^verbatim>\<open>updateSummary\<close>, a line on \<^verbatim>\<open>console.error\<close> or \<^verbatim>\<open>console.warn\<close>, a
  question put by \<^verbatim>\<open>promptYesNo\<close>. Lines on \<^verbatim>\<open>console.log\<close> are left out.
\<close>

datatype event =
    Spawned nat bool json
  | StateSaved string loop_state
  | SummaryWritten string summary
  | ConsoleError string
  | ConsoleWarn string
  | Asked string

text \<open>
  The controller's store: the state object that \<^verbatim>\<open>runLoop\<close> mutates, the number of
  clock readings so far, and the trace.
\<close>

record machine =
  state :: loop_state
  clock :: nat
  trace :: "event list"

definition emit :: "event \<Rightarrow> machine \<Rightarrow> machine" where
  "emit ev m = m\<lparr>trace := trace m @ [ev]\<rparr>"

definition saveState :: "env \<Rightarrow> string \<Rightarrow> machine \<Rightarrow> machine" where
  "saveState e statePath m =
     (let s = (state m)\<lparr>updated_at := nowIso e (clock m)\<rparr>
      in m\<lparr>state := s, clock := Suc (clock m), trace := trace m @ [StateSaved statePath s]\<rparr>)"

definition summary_of :: "loop_state \<Rightarrow> summary" where
  "summary_of s =
     \<lparr> s_loop_id = loop_id s, s_status = status s, s_iteration = iteration s,
       s_max_iterations = max_iterations s, s_completion_promise = completion_promise s,
       s_promise_mode = promise_mode s, s_history = history s,
       s_workspace_root = workspace_root s, s_artifacts = artifacts s,
       s_last_result = last_result s, s_updated_at = updated_at s \<rparr>"

definition updateSummary :: "string option \<Rightarrow> machine \<Rightarrow> machine" where
  "updateSummary summaryPath m =
     (case summaryPath of
        None \<Rightarrow> m
      | Some p \<Rightarrow> if p = [] then m else emit (SummaryWritten p (summary_of (state m))) m)"

section \<open>The loop controller\<close>

record codex_options =
  o_model :: "string option"
  o_profile :: "string option"
  o_sandbox :: "string option"
  o_askForApproval :: "string option"
  o_fullAuto :: bool
  o_skipGitRepoCheck :: bool
  o_cd :: string

text \<open>The argument object of \<^verbatim>\<open>runLoop\<close>, without the state.\<close>

record run_args =
  statePath :: string
  workspaceRoot :: string
  completionPromise :: string
  promiseMode :: string
  maxIterations :: nat
  samePromptEachIteration :: bool
  artifactsDir :: string
  summaryJson :: "string option"
  jsonlEventsBase :: "string option"
  todoFile :: "string option"
  hardStopToken :: string
  hardStopMode :: string
  codexOptions :: codex_options

definition warnDangerous :: "codex_options \<Rightarrow> machine \<Rightarrow> machine" where
  "warnDangerous opts m =
     (if o_sandbox opts = Some ''danger-full-access'' \<or> o_askForApproval opts = Some ''never''
      then emit (ConsoleWarn ''[WARN] Running with dangerous settings. Commands may execute without sandbox or approvals.'') m
      else m)"

text \<open>\<^verbatim>\<open>saveState(state, statePath); updateSummary(summaryJson, state);\<close>\<close>

definition persist :: "env \<Rightarrow> run_args \<Rightarrow> machine \<Rightarrow> machine" where
  "persist e a m = updateSummary (summaryJson a) (saveState e (statePath a) m)"

definition set_status :: "status \<Rightarrow> machine \<Rightarrow> machine" where
  "set_status st m = m\<lparr>state := (state m)\<lparr>status := st\<rparr>\<rparr>"

definition set_paused_flag :: "bool \<Rightarrow> machine \<Rightarrow> machine" where
  "set_paused_flag b m =
     m\<lparr>state := (state m)\<lparr>todo :=
          (case todo (state m) of
             None \<Rightarrow> None
           | Some t \<Rightarrow> Some (t\<lparr>paused_for_hard_stop := b\<rparr>))\<rparr>\<rparr>"

text \<open>How the body of the \<^verbatim>\<open>for\<close> loop is left.\<close>

datatype flow = Continue | Break | Return

definition lastMessagePathOf :: "env \<Rightarrow> run_args \<Rightarrow> nat \<Rightarrow> string" where
  "lastMessagePathOf e a iter =
     path_resolve e [artifactsDir a, ''last_message_iter_'' @ decimal iter @ ''.txt'']"

text \<open>
  The catch block of the loop body: the spawn failure.
\<close>

definition spawn_failed :: "env \<Rightarrow> run_args \<Rightarrow> string \<Rightarrow> machine \<Rightarrow> machine \<times> flow" where
  "spawn_failed e a message m =
     (let m1 = emit (ConsoleError (''codex exec failed: '' @ message)) m;
          m2 = m1\<lparr>state := (state m1)\<lparr>status := error_spawn,
                  last_result := Some \<lparr>exit_code = None, detected_promise = False\<rparr>\<rparr>\<rparr>
      in (persist e a m2, Return))"

definition no_session :: "env \<Rightarrow> run_args \<Rightarrow> machine \<Rightarrow> machine \<times> flow" where
  "no_session e a m =
     (let m1 = emit (ConsoleError ''Unable to detect Codex session id. The loop cannot continue.'') m
      in (persist e a (set_status error_no_session m1), Return))"

text \<open>
  The bookkeeping step: the assignments to the state from \<^verbatim>\<open>state.codex.session_id = sessionId\<close>
  to \<^verbatim>\<open>state.history = history\<close>, followed by the first persist of the iteration. The
  second component is \<^verbatim>\<open>detectedPromise\<close>.
\<close>

definition bookkeeping ::
  "env \<Rightarrow> run_args \<Rightarrow> nat \<Rightarrow> codex_result \<Rightarrow> machine \<Rightarrow> machine \<times> bool" where
  "bookkeeping e a iter result m =
     (let lastMessagePath = lastMessagePathOf e a iter;
          jsonlPath = computeJsonlPath e (jsonlEventsBase a) iter (workspaceRoot a);
          relLast = Some (relToWorkspace e lastMessagePath (workspaceRoot a));
          relJsonl = (case jsonlPath of
                        None \<Rightarrow> None
                      | Some p \<Rightarrow> if p = [] then None else Some (relToWorkspace e p (workspaceRoot a)));
          lastMessage = readFileSafe (files e iter) (Some lastMessagePath);
          detection = detectCompletion (js_RegExp e) (Some lastMessage) (promiseMode a) (completionPromise a);
          detectedPromise = fst detection;
          s = state m;
          iterationRecord =
            \<lparr> h_iteration = iter, h_finished_at = nowIso e (clock m),
              h_exit_code = exitCode result, h_detected_promise = detectedPromise,
              h_last_message_path = relLast, h_jsonl_path = relJsonl \<rparr>;
          s1 = s\<lparr> codex := (codex s)\<lparr>session_id := sessionId result\<rparr>,
                  iteration := iter,
                  status := running,
                  last_result := Some \<lparr>exit_code = exitCode result, detected_promise = detectedPromise\<rparr>,
                  artifacts := (artifacts s)\<lparr>last_message_path := relLast, jsonl_path := relJsonl\<rparr>,
                  history := history s @ [iterationRecord] \<rparr>;
          m1 = m\<lparr> state := s1, clock := Suc (clock m),
                  trace := trace m @ map ConsoleError (snd detection) \<rparr>
      in (persist e a m1, detectedPromise))"

text \<open>The checkpoint scan: the \<^verbatim>\<open>if (todoFile && checkHardStop(...))\<close> statement.\<close>

definition checkpoint :: "env \<Rightarrow> run_args \<Rightarrow> nat \<Rightarrow> machine \<Rightarrow> machine \<times> flow" where
  "checkpoint e a iter m =
     (if truthy_str (todoFile a) \<and> checkHardStop (files e iter) (todoFile a) (hardStopToken a)
      then
        let m1 = persist e a (set_paused_flag True (set_status paused_hard_stop m))
        in if hardStopMode a = ''exit'' then (m1, Break)
           else
             let m2 = emit (Asked ''HARD STOP reached. Continue the loop after review?'') m1
             in if \<not> promptYesNo e iter then (m2, Break)
                else (persist e a (set_status running (set_paused_flag False m2)), Continue)
      else (m, Continue))"

text \<open>The last statement of the body: the iteration cap.\<close>

definition cap_check :: "env \<Rightarrow> run_args \<Rightarrow> nat \<Rightarrow> machine \<Rightarrow> machine \<times> flow" where
  "cap_check e a iter m =
     (if iter \<ge> maxIterations a
      then (persist e a (set_status stopped_max_iterations m), Break)
      else (m, Continue))"

text \<open>One pass through the body of the \<^verbatim>\<open>for\<close> loop of \<^verbatim>\<open>runLoop\<close>.\<close>

definition loop_body :: "env \<Rightarrow> run_args \<Rightarrow> nat \<Rightarrow> machine \<Rightarrow> machine \<times> flow" where
  "loop_body e a iter m =
     (if sigintReceived e iter then (m, Break)
      else
        let resume = session_id (codex (state m));
            useFullPrompt = (resume = JNull \<or> samePromptEachIteration a);
            m1 = emit (Spawned iter useFullPrompt resume) m
        in case runCodexIteration (js_JSON_parse e) resume (child e iter) of
             Inl message \<Rightarrow> spawn_failed e a message m1
           | Inr result \<Rightarrow>
               if \<not> truthy (sessionId result) then no_session e a m1
               else
                 (case bookkeeping e a iter result m1 of
                    (m2, detectedPromise) \<Rightarrow>
                      if detectedPromise then (persist e a (set_status completed m2), Break)
                      else
                        (case checkpoint e a iter m2 of
                           (m3, Continue) \<Rightarrow> cap_check e a iter m3
                         | (m3, fl) \<Rightarrow> (m3, fl))))"

text \<open>The \<^verbatim>\<open>for\<close> loop, entered with the loop variable \<open>iter\<close>.\<close>

function loop_from :: "env \<Rightarrow> run_args \<Rightarrow> nat \<Rightarrow> machine \<Rightarrow> machine" where
  "loop_from e a iter m =
     (if iter \<le> maxIterations a
      then (case loop_body e a iter m of
              (m', Continue) \<Rightarrow> loop_from e a (Suc iter) m'
            | (m', fl) \<Rightarrow> m')
      else m)"
  by pat_completeness auto
termination
  by (relation "measure (\<lambda>(e, a, iter, m). Suc (maxIterations a) - iter)") auto

declare loop_from.simps [simp del]

text \<open>
  \<^verbatim>\<open>runLoop\<close>: the statements before the loop (\<open>loop_entry\<close>), then the loop from
  \<^verbatim>\<open>state.iteration + 1\<close>. The SIGINT handler it registers ends the process from inside the handler;
  the model covers the runs in which the handler does not fire, and keeps the test of the
  interrupt flag at the top of each iteration.
\<close>

definition loop_entry :: "env \<Rightarrow> run_args \<Rightarrow> machine \<Rightarrow> machine" where
  "loop_entry e a m =
     (let m1 = warnDangerous (codexOptions a) m;
          base = (case jsonlEventsBase a of
                    None \<Rightarrow> None
                  | Some p \<Rightarrow> if p = [] then None else Some (relToWorkspace e p (workspaceRoot a)))
      in m1\<lparr>state := (state m1)\<lparr>artifacts := (artifacts (state m1))\<lparr>jsonl_events_base := base\<rparr>\<rparr>\<rparr>)"

definition runLoop :: "env \<Rightarrow> run_args \<Rightarrow> machine \<Rightarrow> machine" where
  "runLoop e a m =
     (let m0 = loop_entry e a m
      in loop_from e a (iteration (state m0) + 1) m0)"

section \<open>Resuming a stored loop\<close>

definition DEFAULT_SANDBOX :: string where "DEFAULT_SANDBOX = ''read-only''"
definition DEFAULT_APPROVAL :: string where "DEFAULT_APPROVAL = ''on-request''"
definition DEFAULT_HARD_STOP_TOKEN :: string where "DEFAULT_HARD_STOP_TOKEN = ''HARD STOP''"
definition DEFAULT_HARD_STOP_MODE :: string where "DEFAULT_HARD_STOP_MODE = ''pause''"

text \<open>
  The options object that the \<open>resume\<close> command passes to \<^verbatim>\<open>handleResume\<close>. An option
  that was not given on the command line is \<open>None\<close> (\<^verbatim>\<open>undefined\<close>); the two flags
  \<open>fullAuto\<close> and \<open>skipGitRepoCheck\<close> default to \<^verbatim>\<open>false\<close>.
\<close>

record resume_options =
  r_loopId :: "string option"
  r_stateFile :: "string option"
  r_cd :: "string option"
  r_maxIterations :: "nat option"
  r_completionPromise :: "string option"
  r_promiseMode :: "string option"
  r_samePromptEachIteration :: "bool option"
  r_jsonlEvents :: "string option"
  r_model :: "string option"
  r_profile :: "string option"
  r_sandbox :: "string option"
  r_askForApproval :: "string option"
  r_fullAuto :: bool
  r_skipGitRepoCheck :: bool

text \<open>\<^verbatim>\<open>a || b\<close> on optional strings.\<close>

definition str_or :: "string option \<Rightarrow> string option \<Rightarrow> string option" where
  "str_or a b = (if truthy_str a then a else b)"

text \<open>The third argument of \<^verbatim>\<open>buildCodexOptions\<close>; both callers leave it at \<^verbatim>\<open>{}\<close>.\<close>

record fallback_options =
  f_model :: "string option"
  f_profile :: "string option"
  f_sandbox :: "string option"
  f_approval :: "string option"

definition no_fallback :: fallback_options where
  "no_fallback = \<lparr> f_model = None, f_profile = None, f_sandbox = None, f_approval = None \<rparr>"

definition buildCodexOptions :: "resume_options \<Rightarrow> string \<Rightarrow> fallback_options \<Rightarrow> codex_options" where
  "buildCodexOptions options root fallback =
     (let sandboxFromOptions =
            str_or (r_sandbox options) (if r_fullAuto options then Some ''workspace-write'' else None);
          approvalFromOptions =
            str_or (r_askForApproval options) (if r_fullAuto options then Some ''on-request'' else None)
      in \<lparr> o_model = str_or (str_or (r_model options) (f_model fallback)) None,
           o_profile = str_or (str_or (r_profile options) (f_profile fallback)) None,
           o_sandbox = str_or (str_or sandboxFromOptions (f_sandbox fallback)) (Some DEFAULT_SANDBOX),
           o_askForApproval = str_or (str_or approvalFromOptions (f_approval fallback)) (Some DEFAULT_APPROVAL),
           o_fullAuto = r_fullAuto options,
           o_skipGitRepoCheck = r_skipGitRepoCheck options,
           o_cd = root \<rparr>)"

definition resolveStatePath :: "env \<Rightarrow> string option \<Rightarrow> string option \<Rightarrow> string \<Rightarrow> string + string" where
  "resolveStatePath e loopId stateFile root =
     (case stateFile of
        Some f \<Rightarrow>
          if f \<noteq> [] then Inr (path_resolve e [f])
          else (case loopId of
                  Some l \<Rightarrow>
                    if l \<noteq> [] then Inr (path_resolve e [root, ''.codex/waylon-smithers/loops'', l @ ''.json''])
                    else Inl ''A loop id is required when no state file is provided.''
                | None \<Rightarrow> Inl ''A loop id is required when no state file is provided.'')
      | None \<Rightarrow>
          (case loopId of
             Some l \<Rightarrow>
               if l \<noteq> [] then Inr (path_resolve e [root, ''.codex/waylon-smithers/loops'', l @ ''.json''])
               else Inl ''A loop id is required when no state file is provided.''
           | None \<Rightarrow> Inl ''A loop id is required when no state file is provided.''))"

text \<open>
  The stored state records: a map from the path of a state file to the record read from it.
  \<^verbatim>\<open>loadState\<close> throws when the file does not exist.
\<close>

type_synonym state_store = "string \<rightharpoonup> loop_state"

definition loadState :: "state_store \<Rightarrow> string \<Rightarrow> string + loop_state" where
  "loadState store p =
     (case store p of
        None \<Rightarrow> Inl (''State file not found at '' @ p)
      | Some s \<Rightarrow> Inr s)"

text \<open>
  The overrides of \<^verbatim>\<open>handleResume\<close>: the four guarded assignments and the four
  assignments from the rebuilt invocation options.
\<close>

definition apply_overrides :: "resume_options \<Rightarrow> codex_options \<Rightarrow> loop_state \<Rightarrow> loop_state" where
  "apply_overrides options opts s =
     (let s1 = (case r_maxIterations options of
                  None \<Rightarrow> s
                | Some n \<Rightarrow> if n \<noteq> 0 then s\<lparr>max_iterations := n\<rparr> else s);
          s2 = (case r_completionPromise options of
                  None \<Rightarrow> s1
                | Some c \<Rightarrow> if c \<noteq> [] then s1\<lparr>completion_promise := c\<rparr> else s1);
          s3 = (case r_promiseMode options of
                  None \<Rightarrow> s2
                | Some pm \<Rightarrow> if pm \<noteq> [] then s2\<lparr>promise_mode := pm\<rparr> else s2);
          s4 = (case r_samePromptEachIteration options of
                  None \<Rightarrow> s3
                | Some b \<Rightarrow> s3\<lparr>same_prompt_each_iteration := b\<rparr>)
      in s4\<lparr>codex := (codex s4)\<lparr> model := o_model opts, sandbox := o_sandbox opts,
                                   approval := o_askForApproval opts, profile := o_profile opts \<rparr>\<rparr>)"

text \<open>
  \<^verbatim>\<open>handleResume\<close> up to and including its \<^verbatim>\<open>saveState\<close>: the machine holding the
  overridden and persisted record, and the arguments for \<^verbatim>\<open>runLoop\<close>. \<open>Inl\<close> is a thrown
  error.
\<close>

definition resume_step ::
  "env \<Rightarrow> state_store \<Rightarrow> resume_options \<Rightarrow> string + (machine \<times> run_args)" where
  "resume_step e store options =
     (let stateLookupRoot = path_resolve e [case r_cd options of
                                            None \<Rightarrow> cwd e
                                          | Some c \<Rightarrow> if c \<noteq> [] then c else cwd e]
      in case resolveStatePath e (r_loopId options) (r_stateFile options) stateLookupRoot of
           Inl err \<Rightarrow> Inl err
         | Inr statePath' \<Rightarrow>
             (case loadState store statePath' of
                Inl err \<Rightarrow> Inl err
              | Inr s \<Rightarrow>
                  let workspaceRoot' =
                        (if workspace_root s \<noteq> [] then path_resolve e [workspace_root s] else stateLookupRoot);
                      artifactsDir' = path_resolve e [workspaceRoot', dir (artifacts s)];
                      summaryJson' =
                        (case summary_json_path (artifacts s) of
                           None \<Rightarrow> path_join e [artifactsDir', ''summary.json'']
                         | Some sp \<Rightarrow>
                             if sp \<noteq> [] then path_resolve e [workspaceRoot', sp]
                             else path_join e [artifactsDir', ''summary.json'']);
                      jsonlEventsBase' =
                        (case r_jsonlEvents options of
                           Some j \<Rightarrow>
                             if j \<noteq> [] then Some (path_resolve e [workspaceRoot', j])
                             else (case jsonl_events_base (artifacts s) of
                                     None \<Rightarrow> None
                                   | Some b \<Rightarrow> if b \<noteq> [] then Some (path_resolve e [workspaceRoot', b]) else None)
                         | None \<Rightarrow>
                             (case jsonl_events_base (artifacts s) of
                                None \<Rightarrow> None
                              | Some b \<Rightarrow> if b \<noteq> [] then Some (path_resolve e [workspaceRoot', b]) else None));
                      opts = buildCodexOptions options workspaceRoot' no_fallback;
                      m = saveState e statePath' \<lparr> state = apply_overrides options opts s, clock = 0, trace = [] \<rparr>;
                      s' = state m
                  in Inr (m,
                       \<lparr> statePath = statePath',
                         workspaceRoot = workspaceRoot',
                         completionPromise = completion_promise s',
                         promiseMode = promise_mode s',
                         maxIterations = max_iterations s',
                         samePromptEachIteration = same_prompt_each_iteration s',
                         artifactsDir = artifactsDir',
                         summaryJson = Some summaryJson',
                         jsonlEventsBase = jsonlEventsBase',
                         todoFile = (case todo s' of
                                       None \<Rightarrow> None
                                     | Some t \<Rightarrow> Some (path_resolve e [workspaceRoot', path t])),
                         hardStopToken = (case todo s' of
                                            None \<Rightarrow> DEFAULT_HARD_STOP_TOKEN
                                          | Some t \<Rightarrow> hard_stop_token t),
                         hardStopMode = (case todo s' of
                                           None \<Rightarrow> DEFAULT_HARD_STOP_MODE
                                         | Some t \<Rightarrow> hard_stop_mode t),
                         codexOptions = opts \<rparr>)))"

definition handleResume :: "env \<Rightarrow> state_store \<Rightarrow> resume_options \<Rightarrow> string + machine" where
  "handleResume e store options =
     (case resume_step e store options of
        Inl err \<Rightarrow> Inl err
      | Inr (m, a) \<Rightarrow> Inr (runLoop e a m))"

section \<open>Observations on a run\<close>

text \<open>The iterations for which a child was spawned, and the records written to the state file.\<close>

fun spawned :: "event list \<Rightarrow> nat list" where
  "spawned [] = []"
| "spawned (Spawned i full resume # evs) = i # spawned evs"
| "spawned (ev # evs) = spawned evs"

fun saved :: "event list \<Rightarrow> loop_state list" where
  "saved [] = []"
| "saved (StateSaved p s # evs) = s # saved evs"
| "saved (ev # evs) = saved evs"

text \<open>The result of the agent invocation of iteration \<open>iter\<close>, made from the machine \<open>m\<close>.\<close>

definition invocation :: "env \<Rightarrow> nat \<Rightarrow> machine \<Rightarrow> string + codex_result" where
  "invocation e iter m =
     runCodexIteration (js_JSON_parse e) (session_id (codex (state m))) (child e iter)"

text \<open>
  The iteration reaches the bookkeeping step: no interrupt is pending, the child closes,
  and a session identifier is resolved.
\<close>

definition reaches_bookkeeping :: "env \<Rightarrow> nat \<Rightarrow> machine \<Rightarrow> bool" where
  "reaches_bookkeeping e iter m =
     (\<not> sigintReceived e iter \<and>
      (case invocation e iter m of
         Inl message \<Rightarrow> False
       | Inr r \<Rightarrow> truthy (sessionId r)))"

text \<open>The captured final message of an iteration, and whether it satisfies detection.\<close>

definition final_message :: "env \<Rightarrow> run_args \<Rightarrow> nat \<Rightarrow> string" where
  "final_message e a iter = readFileSafe (files e iter) (Some (lastMessagePathOf e a iter))"

definition detects :: "env \<Rightarrow> run_args \<Rightarrow> nat \<Rightarrow> bool" where
  "detects e a iter =
     fst (detectCompletion (js_RegExp e) (Some (final_message e a iter))
            (promiseMode a) (completionPromise a))"

text \<open>A checkpoint file is passed to the run and contains the sentinel token.\<close>

definition sentinel_present :: "env \<Rightarrow> run_args \<Rightarrow> nat \<Rightarrow> bool" where
  "sentinel_present e a iter =
     (truthy_str (todoFile a) \<and> checkHardStop (files e iter) (todoFile a) (hardStopToken a))"

text \<open>The transient paused-for-checkpoint flag of a state record.\<close>

definition paused_flag :: "loop_state \<Rightarrow> bool" where
  "paused_flag s = (case todo s of None \<Rightarrow> False | Some t \<Rightarrow> paused_for_hard_stop t)"

text \<open>Two records agree on the iteration counter and on the history.\<close>

definition same_progress :: "loop_state \<Rightarrow> loop_state \<Rightarrow> bool" where
  "same_progress s t = (iteration s = iteration t \<and> history s = history t)"

text \<open>
  The record \<open>s\<close> comes from \<open>s0\<close> by appending only: its history is the history of
  \<open>s0\<close> followed by one record for each of the iterations \<open>iteration s0 + 1\<close> to
  \<open>iteration s\<close>, in this order, and its length is the iteration counter.
\<close>

definition appended_since :: "loop_state \<Rightarrow> loop_state \<Rightarrow> bool" where
  "appended_since s0 s =
     (length (history s) = iteration s \<and> iteration s0 \<le> iteration s
      \<and> (\<exists>new. history s = history s0 @ new
             \<and> map h_iteration new = [Suc (iteration s0) ..< Suc (iteration s)]))"

text \<open>
  An iteration in which nothing stops the loop before the cap: no interrupt, the child
  closes, the final message does not match, and no sentinel fires.
\<close>

definition closes :: "env \<Rightarrow> nat \<Rightarrow> bool" where
  "closes e i = (case child e i of ChildClosed code out err \<Rightarrow> True | ChildError message \<Rightarrow> False)"

definition reports_session :: "env \<Rightarrow> nat \<Rightarrow> bool" where
  "reports_session e i =
     (case child e i of
        ChildClosed code out err \<Rightarrow> truthy (resolveSessionId (js_JSON_parse e) JNull out err)
      | ChildError message \<Rightarrow> False)"

definition quiet :: "env \<Rightarrow> run_args \<Rightarrow> nat \<Rightarrow> bool" where
  "quiet e a i =
     (\<not> sigintReceived e i \<and> closes e i \<and> \<not> detects e a i \<and> \<not> sentinel_present e a i)"

section \<open>A model of JSON.parse\<close>

text \<open>
  A parser for JSON texts, used where a concrete \<^verbatim>\<open>JSON.parse\<close> is needed. It covers
  objects, arrays, strings with the two-character escapes, numbers and the three literals;
  an escape by code point (backslash, \<open>u\<close>, four digits) is not covered and is rejected. The fuel of the mutually recursive
  functions is the length of the text plus one: every call that uses fuel has consumed a
  character.
\<close>

definition json_ws :: "char \<Rightarrow> bool" where
  "json_ws c = (c \<in> set [CHR 0x20, CHR 0x09, CHR 0x0A, CHR 0x0D])"

definition skip_ws :: "string \<Rightarrow> string" where
  "skip_ws s = dropWhile json_ws s"

definition is_digit :: "char \<Rightarrow> bool" where
  "is_digit c = (c \<in> set ''0123456789'')"

definition digit_value :: "char \<Rightarrow> nat" where
  "digit_value c = of_char c - 48"

definition digits_value :: "string \<Rightarrow> nat" where
  "digits_value ds = foldl (\<lambda>acc d. 10 * acc + digit_value d) 0 ds"

definition unescape :: "char \<Rightarrow> char option" where
  "unescape c =
     (if c = CHR 0x22 then Some (CHR 0x22)
      else if c = CHR 0x5C then Some (CHR 0x5C)
      else if c = CHR ''/'' then Some (CHR ''/'')
      else if c = CHR ''b'' then Some (CHR 0x08)
      else if c = CHR ''f'' then Some (CHR 0x0C)
      else if c = CHR ''n'' then Some (CHR 0x0A)
      else if c = CHR ''r'' then Some (CHR 0x0D)
      else if c = CHR ''t'' then Some (CHR 0x09)
      else None)"

text \<open>A string literal, read from just after its opening quote.\<close>

fun parse_chars :: "string \<Rightarrow> (string \<times> string) option" where
  "parse_chars [] = None"
| "parse_chars [c] = (if c = CHR 0x22 then Some ([], []) else None)"
| "parse_chars (c # d # ds) =
     (if c = CHR 0x22 then Some ([], d # ds)
      else if c = CHR 0x5C then
        (case unescape d of
           None \<Rightarrow> None
         | Some x \<Rightarrow>
             (case parse_chars ds of
                None \<Rightarrow> None
              | Some (str, rest) \<Rightarrow> Some (x # str, rest)))
      else if of_char c < (32 :: nat) then None
      else (case parse_chars (d # ds) of
              None \<Rightarrow> None
            | Some (str, rest) \<Rightarrow> Some (c # str, rest)))"

text \<open>A number literal: sign, integer part, optional fraction, optional exponent.\<close>

definition parse_number :: "string \<Rightarrow> (json \<times> string) option" where
  "parse_number s =
     (let neg = (case s of c # cs \<Rightarrow> c = CHR ''-'' | [] \<Rightarrow> False);
          s1 = (if neg then tl s else s);
          ip = takeWhile is_digit s1;
          s2 = dropWhile is_digit s1;
          has_frac = (case s2 of c # cs \<Rightarrow> c = CHR ''.'' | [] \<Rightarrow> False);
          fp = (if has_frac then takeWhile is_digit (tl s2) else []);
          s3 = (if has_frac then dropWhile is_digit (tl s2) else s2);
          has_exp = (case s3 of c # cs \<Rightarrow> c = CHR ''e'' \<or> c = CHR ''E'' | [] \<Rightarrow> False);
          s4 = (if has_exp then tl s3 else s3);
          eneg = (case s4 of c # cs \<Rightarrow> has_exp \<and> c = CHR ''-'' | [] \<Rightarrow> False);
          epos = (case s4 of c # cs \<Rightarrow> has_exp \<and> c = CHR ''+'' | [] \<Rightarrow> False);
          s5 = (if eneg \<or> epos then tl s4 else s4);
          ep = (if has_exp then takeWhile is_digit s5 else []);
          s6 = (if has_exp then dropWhile is_digit s5 else s5);
          mant = int (digits_value (ip @ fp));
          expo = (if eneg then - int (digits_value ep) else int (digits_value ep)) - int (length fp)
      in if ip = [] \<or> (length ip > 1 \<and> take 1 ip = ''0'') \<or> (has_frac \<and> fp = []) \<or> (has_exp \<and> ep = [])
         then None
         else Some (JNumber (if neg then - mant else mant) expo, s6))"

fun parse_value :: "nat \<Rightarrow> string \<Rightarrow> (json \<times> string) option"
  and parse_elements :: "nat \<Rightarrow> json list \<Rightarrow> string \<Rightarrow> (json \<times> string) option"
  and parse_members :: "nat \<Rightarrow> (string \<times> json) list \<Rightarrow> string \<Rightarrow> (json \<times> string) option"
where
  "parse_value 0 s = None"
| "parse_value (Suc n) s =
     (case skip_ws s of
        [] \<Rightarrow> None
      | c # cs \<Rightarrow>
          if c = CHR ''{'' then
            (case skip_ws cs of
               [] \<Rightarrow> None
             | d # ds \<Rightarrow> if d = CHR ''}'' then Some (JObject [], ds) else parse_members n [] cs)
          else if c = CHR ''['' then
            (case skip_ws cs of
               [] \<Rightarrow> None
             | d # ds \<Rightarrow> if d = CHR '']'' then Some (JArray [], ds) else parse_elements n [] cs)
          else if c = CHR 0x22 then
            (case parse_chars cs of
               None \<Rightarrow> None
             | Some (str, rest) \<Rightarrow> Some (JString str, rest))
          else if prefix ''true'' (c # cs) then Some (JBool True, drop 4 (c # cs))
          else if prefix ''false'' (c # cs) then Some (JBool False, drop 5 (c # cs))
          else if prefix ''null'' (c # cs) then Some (JNull, drop 4 (c # cs))
          else parse_number (c # cs))"
| "parse_elements 0 acc s = None"
| "parse_elements (Suc n) acc s =
     (case parse_value n s of
        None \<Rightarrow> None
      | Some (v, rest) \<Rightarrow>
          (case skip_ws rest of
             [] \<Rightarrow> None
           | c # cs \<Rightarrow>
               if c = CHR '','' then parse_elements n (v # acc) cs
               else if c = CHR '']'' then Some (JArray (rev (v # acc)), cs)
               else None))"
| "parse_members 0 acc s = None"
| "parse_members (Suc n) acc s =
     (case skip_ws s of
        [] \<Rightarrow> None
      | c # cs \<Rightarrow>
          if c \<noteq> CHR 0x22 then None
          else
            (case parse_chars cs of
               None \<Rightarrow> None
             | Some (key, rest) \<Rightarrow>
                 (case skip_ws rest of
                    [] \<Rightarrow> None
                  | d # ds \<Rightarrow>
                      if d \<noteq> CHR '':'' then None
                      else
                        (case parse_value n ds of
                           None \<Rightarrow> None
                         | Some (v, rest2) \<Rightarrow>
                             (case skip_ws rest2 of
                                [] \<Rightarrow> None
                              | x # xs \<Rightarrow>
                                  if x = CHR '','' then parse_members n ((key, v) # acc) xs
                                  else if x = CHR ''}'' then Some (JObject (rev ((key, v) # acc)), xs)
                                  else None)))))"

definition json_parse :: json_parser where
  "json_parse s =
     (case parse_value (Suc (length s)) s of
        None \<Rightarrow> None
      | Some (v, rest) \<Rightarrow> if skip_ws rest = [] then Some v else None)"

section \<open>A model of RegExp for a fragment of the pattern language\<close>

text \<open>
  Used where a concrete \<^verbatim>\<open>RegExp\<close> is needed. The fragment: a sequence of atoms, each
  followed by at most one of the quantifiers \<open>*\<close>, \<open>+\<close>, \<open>?\<close>; an atom is an ordinary
  character, the dot, one of the six class escapes (backslash followed by one of \<open>d D w W s S\<close>), an escaped punctuation
  character, or a bracketed class of characters and ranges, possibly negated. Groups,
  alternation, anchors, braces and the other escapes are outside the fragment, and a
  source that uses them is answered with \<open>Inl\<close> like a source that does not compile.
\<close>

datatype atom =
    Lit char
  | AnyChar
  | Class bool "(char \<times> char) list"

datatype piece = Once atom | Star atom | Plus atom | Opt atom

definition digit_ranges :: "(char \<times> char) list" where
  "digit_ranges = [(CHR ''0'', CHR ''9'')]"

definition word_ranges :: "(char \<times> char) list" where
  "word_ranges =
     [(CHR ''a'', CHR ''z''), (CHR ''A'', CHR ''Z''), (CHR ''0'', CHR ''9''), (CHR ''_'', CHR ''_'')]"

definition space_ranges :: "(char \<times> char) list" where
  "space_ranges = [(CHR 0x09, CHR 0x0D), (CHR 0x20, CHR 0x20), (CHR 0xA0, CHR 0xA0)]"

definition in_ranges :: "(char \<times> char) list \<Rightarrow> char \<Rightarrow> bool" where
  "in_ranges rs c =
     list_ex (\<lambda>(lo, hi). (of_char lo :: nat) \<le> of_char c \<and> (of_char c :: nat) \<le> of_char hi) rs"

fun atom_matches :: "atom \<Rightarrow> char \<Rightarrow> bool" where
  "atom_matches (Lit l) c = (c = l)"
| "atom_matches AnyChar c = (c \<noteq> CHR 0x0A \<and> c \<noteq> CHR 0x0D)"
| "atom_matches (Class negated rs) c = (in_ranges rs c \<noteq> negated)"

definition is_alnum :: "char \<Rightarrow> bool" where
  "is_alnum c =
     in_ranges [(CHR ''a'', CHR ''z''), (CHR ''A'', CHR ''Z''), (CHR ''0'', CHR ''9'')] c"

definition escape_atom :: "char \<Rightarrow> atom option" where
  "escape_atom c =
     (if c = CHR ''d'' then Some (Class False digit_ranges)
      else if c = CHR ''D'' then Some (Class True digit_ranges)
      else if c = CHR ''w'' then Some (Class False word_ranges)
      else if c = CHR ''W'' then Some (Class True word_ranges)
      else if c = CHR ''s'' then Some (Class False space_ranges)
      else if c = CHR ''S'' then Some (Class True space_ranges)
      else if is_alnum c then None
      else Some (Lit c))"

text \<open>
  The members of a class, read from just after \<open>[\<close> or \<open>[^\<close> up to the closing bracket.
  \<open>None\<close> when the class is not closed or a range is out of order (both are syntax
  errors), and when an escape occurs inside the class (outside the fragment).
\<close>

fun parse_class :: "string \<Rightarrow> ((char \<times> char) list \<times> string) option" where
  "parse_class [] = None"
| "parse_class (c # cs) =
     (if c = CHR '']'' then Some ([], cs)
      else if c = CHR 0x5C then None
      else (case cs of
              d # hi # rest \<Rightarrow>
                if d = CHR ''-'' \<and> hi \<noteq> CHR '']'' then
                  (if hi = CHR 0x5C \<or> (of_char hi :: nat) < of_char c then None
                   else (case parse_class rest of
                           None \<Rightarrow> None
                         | Some (rs, r) \<Rightarrow> Some ((c, hi) # rs, r)))
                else (case parse_class cs of
                        None \<Rightarrow> None
                      | Some (rs, r) \<Rightarrow> Some ((c, c) # rs, r))
            | _ \<Rightarrow> (case parse_class cs of
                      None \<Rightarrow> None
                    | Some (rs, r) \<Rightarrow> Some ((c, c) # rs, r))))"

definition parse_atom :: "string \<Rightarrow> (atom \<times> string) option" where
  "parse_atom s =
     (case s of
        [] \<Rightarrow> None
      | c # cs \<Rightarrow>
          if c = CHR 0x5C then
            (case cs of
               [] \<Rightarrow> None
             | d # ds \<Rightarrow> (case escape_atom d of None \<Rightarrow> None | Some a \<Rightarrow> Some (a, ds)))
          else if c = CHR ''['' then
            (case cs of
               [] \<Rightarrow> None
             | d # ds \<Rightarrow>
                 if d = CHR ''^'' then
                   (case parse_class ds of None \<Rightarrow> None | Some (rs, r) \<Rightarrow> Some (Class True rs, r))
                 else
                   (case parse_class cs of None \<Rightarrow> None | Some (rs, r) \<Rightarrow> Some (Class False rs, r)))
          else if c = CHR ''.'' then Some (AnyChar, cs)
          else if c \<in> set ''*+?()|{}^$]'' then None
          else Some (Lit c, cs))"

text \<open>The fuel of \<open>parse_pieces\<close> is the length of the source; every step consumes a character.\<close>

fun parse_pieces :: "nat \<Rightarrow> string \<Rightarrow> piece list option" where
  "parse_pieces n [] = Some []"
| "parse_pieces 0 (c # cs) = None"
| "parse_pieces (Suc n) (c # cs) =
     (case parse_atom (c # cs) of
        None \<Rightarrow> None
      | Some (a, rest) \<Rightarrow>
          (case rest of
             [] \<Rightarrow> Some [Once a]
           | q # qs \<Rightarrow>
               if q = CHR ''*'' then map_option (Cons (Star a)) (parse_pieces n qs)
               else if q = CHR ''+'' then map_option (Cons (Plus a)) (parse_pieces n qs)
               else if q = CHR ''?'' then map_option (Cons (Opt a)) (parse_pieces n qs)
               else map_option (Cons (Once a)) (parse_pieces n rest)))"

text \<open>Whether the pattern matches at the start of the text.\<close>

function match_here :: "piece list \<Rightarrow> string \<Rightarrow> bool" where
  "match_here [] s = True"
| "match_here (Once a # ps) [] = False"
| "match_here (Once a # ps) (c # cs) = (atom_matches a c \<and> match_here ps cs)"
| "match_here (Opt a # ps) [] = match_here ps []"
| "match_here (Opt a # ps) (c # cs) =
     ((atom_matches a c \<and> match_here ps cs) \<or> match_here ps (c # cs))"
| "match_here (Star a # ps) [] = match_here ps []"
| "match_here (Star a # ps) (c # cs) =
     ((atom_matches a c \<and> match_here (Star a # ps) cs) \<or> match_here ps (c # cs))"
| "match_here (Plus a # ps) [] = False"
| "match_here (Plus a # ps) (c # cs) = (atom_matches a c \<and> match_here (Star a # ps) cs)"
  by pat_completeness auto
termination
  by (relation "measures [\<lambda>(ps, s). length s, \<lambda>(ps, s). length ps]") auto

text \<open>\<^verbatim>\<open>re.test(text)\<close>: a match that starts at some position of the text.\<close>

fun regexp_test :: "piece list \<Rightarrow> string \<Rightarrow> bool" where
  "regexp_test ps [] = match_here ps []"
| "regexp_test ps (c # cs) = (match_here ps (c # cs) \<or> regexp_test ps cs)"

definition regexp_fragment :: regexp_ctor where
  "regexp_fragment source =
     (case parse_pieces (length source) source of
        None \<Rightarrow> Inl (''Invalid regular expression: /'' @ source @ ''/'')
      | Some ps \<Rightarrow> Inr (regexp_test ps))"

section \<open>Scenarios\<close>

text \<open>
  Concrete runs, built on the two models above and on paths that are joined with a slash.
  A scenario fixes what the child of each iteration does and what the file system holds.
\<close>

fun posix_join :: "string list \<Rightarrow> string" where
  "posix_join [] = []"
| "posix_join [p] = p"
| "posix_join (p # q # ps) = p @ ''/'' @ posix_join (q # ps)"

definition posix_relative :: "string \<Rightarrow> string \<Rightarrow> string" where
  "posix_relative from to =
     (if prefix (from @ ''/'') to then drop (Suc (length from)) to else to)"

definition scenario_env :: "(nat \<Rightarrow> child_outcome) \<Rightarrow> (nat \<Rightarrow> filesystem) \<Rightarrow> env" where
  "scenario_env children fs =
     \<lparr> js_JSON_parse = json_parse,
       js_RegExp = regexp_fragment,
       path_resolve = posix_join,
       path_join = posix_join,
       path_relative = posix_relative,
       path_extname = (\<lambda>p. []),
       path_basename = (\<lambda>p ext. p),
       path_dirname = (\<lambda>p. p),
       cwd = ''/w'',
       nowIso = (\<lambda>k. ''t'' @ decimal k),
       child = children,
       files = fs,
       sigintReceived = (\<lambda>i. False),
       promptYesNo = (\<lambda>i. False) \<rparr>"

definition scenario_options :: codex_options where
  "scenario_options =
     \<lparr> o_model = None, o_profile = None, o_sandbox = Some ''read-only'',
       o_askForApproval = Some ''on-request'', o_fullAuto = False,
       o_skipGitRepoCheck = False, o_cd = ''/w'' \<rparr>"

text \<open>Tag mode with the promise \<open>DONE\<close>; the cap and the checkpoint file vary.\<close>

definition scenario_args :: "nat \<Rightarrow> string option \<Rightarrow> run_args" where
  "scenario_args cap todo_file =
     \<lparr> statePath = ''/w/loop.json'',
       workspaceRoot = ''/w'',
       completionPromise = ''DONE'',
       promiseMode = ''tag'',
       maxIterations = cap,
       samePromptEachIteration = False,
       artifactsDir = ''/w/art'',
       summaryJson = None,
       jsonlEventsBase = None,
       todoFile = todo_file,
       hardStopToken = ''HARD STOP'',
       hardStopMode = ''exit'',
       codexOptions = scenario_options \<rparr>"

definition scenario_todo :: todo_state where
  "scenario_todo =
     \<lparr> path = ''TODO.md'', hard_stop_token = ''HARD STOP'', hard_stop_mode = ''exit'',
       paused_for_hard_stop = False \<rparr>"

definition scenario_record :: "nat \<Rightarrow> iteration_record" where
  "scenario_record i =
     \<lparr> h_iteration = i, h_finished_at = ''t0'', h_exit_code = Some 0,
       h_detected_promise = False, h_last_message_path = None, h_jsonl_path = None \<rparr>"

text \<open>
  A stored record with the given iteration counter, status, session identifier and
  checkpoint record, and one history record per past iteration.
\<close>

definition scenario_state :: "nat \<Rightarrow> status \<Rightarrow> json \<Rightarrow> todo_state option \<Rightarrow> loop_state" where
  "scenario_state n st sid td =
     \<lparr> loop_id = ''demo'', created_at = ''t0'', updated_at = ''t0'', workspace_root = ''/w'',
       prompt = ''Do task'', completion_promise = ''DONE'', promise_mode = ''tag'',
       max_iterations = 3, same_prompt_each_iteration = False, iteration = n, status = st,
       codex = \<lparr> session_id = sid, model = None, sandbox = None, approval = None, profile = None \<rparr>,
       todo = td,
       artifacts = \<lparr> dir = ''art'', last_message_path = None, jsonl_path = None,
                     jsonl_events_base = None, summary_json_path = None \<rparr>,
       history = map scenario_record [1 ..< Suc n],
       last_result = None,
       state_path = ''loop.json'' \<rparr>"

definition scenario_machine :: "loop_state \<Rightarrow> machine" where
  "scenario_machine s = \<lparr> state = s, clock = 0, trace = [] \<rparr>"

definition scenario_last_path :: "nat \<Rightarrow> string" where
  "scenario_last_path i = posix_join [''/w/art'', ''last_message_iter_'' @ decimal i @ ''.txt'']"

text \<open>
  The file system of a scenario: the final message of every iteration (if any) and the
  contents of the checkpoint file \<open>/w/TODO.md\<close> (if any).
\<close>

definition scenario_files :: "string option \<Rightarrow> string option \<Rightarrow> nat \<Rightarrow> filesystem" where
  "scenario_files message checklist i =
     (\<lambda>p. if p = ''/w/TODO.md'' then checklist
          else if p = scenario_last_path i then message
          else None)"

text \<open>A child that reports the session \<open>s1\<close> in a structured event and exits with 0.\<close>

definition child_ok :: child_outcome where
  "child_ok = ChildClosed (Some 0) ''{\"session_id\": \"s1\"}'' []"

definition child_silent :: child_outcome where
  "child_silent = ChildClosed (Some 0) ''no identifier here'' []"

definition child_enoent :: child_outcome where
  "child_enoent = ChildError ''spawn codex ENOENT''"

text \<open>The scenarios used below.\<close>

definition tie_env :: env where
  "tie_env = scenario_env (\<lambda>i. child_ok)
     (scenario_files (Some ''<promise>DONE</promise>'') (Some ''- HARD STOP here''))"

definition working_env :: env where
  "working_env = scenario_env (\<lambda>i. child_ok)
     (scenario_files (Some ''Working...'') (Some ''- HARD STOP here''))"

definition quiet_env :: env where
  "quiet_env = scenario_env (\<lambda>i. child_ok) (scenario_files (Some ''Working...'') None)"

definition missing_env :: env where
  "missing_env = scenario_env (\<lambda>i. child_ok) (scenario_files None None)"

definition enoent_env :: env where
  "enoent_env = scenario_env (\<lambda>i. child_enoent) (scenario_files None None)"

definition silent_env :: env where
  "silent_env = scenario_env (\<lambda>i. child_silent) (scenario_files None None)"

definition checklist_args :: run_args where
  "checklist_args = scenario_args 3 (Some ''/w/TODO.md'')"

definition plain_args :: run_args where
  "plain_args = scenario_args 3 None"

definition fresh_machine :: machine where
  "fresh_machine = scenario_machine (scenario_state 0 running JNull (Some scenario_todo))"

definition capped_machine :: machine where
  "capped_machine =
     scenario_machine (scenario_state 3 paused_user_interrupt (JString ''s1'') None)"


text \<open>The pattern source \<open>DONE-\<close>, backslash, \<open>d+\<close>.\<close>

definition done_digits :: string where
  "done_digits = ''DONE-'' @ [CHR 0x5C] @ ''d+''"

text \<open>The identifier that one line of the output yields as a structured event, if any.\<close>

definition line_session_id :: "json_parser \<Rightarrow> string \<Rightarrow> json option" where
  "line_session_id P line =
     (if startsWith (trim line) ''{''
      then (case P line of None \<Rightarrow> None | Some event \<Rightarrow> event_session_id event)
      else None)"

text \<open>The text has a substring of the UUID shape at offset \<open>k\<close>.\<close>

definition uuid_at :: "string \<Rightarrow> nat \<Rightarrow> bool" where
  "uuid_at line k = is_uuid (take 36 (drop k line))"

text \<open>Outputs of a child: event lines and a bare UUID.\<close>

definition event_line :: "string \<Rightarrow> string" where
  "event_line sid = ''{\"session_id\": \"'' @ sid @ ''\"}''"

definition bare_uuid :: string where
  "bare_uuid = ''0199a213-81c0-7800-8aa1-bbab2a035a53''"

definition out_one :: string where
  "out_one = event_line ''A'' @ [LF] @ ''session: '' @ bare_uuid"

definition out_two :: string where
  "out_two = event_line ''C'' @ [LF] @ event_line ''A'' @ [LF] @ ''session: '' @ bare_uuid"


text \<open>A stored record of a loop interrupted after two iterations, and options for resuming it.\<close>

definition no_options :: resume_options where
  "no_options =
     \<lparr> r_loopId = Some ''demo'', r_stateFile = None, r_cd = Some ''/w'',
       r_maxIterations = None, r_completionPromise = None, r_promiseMode = None,
       r_samePromptEachIteration = None, r_jsonlEvents = None, r_model = None,
       r_profile = None, r_sandbox = None, r_askForApproval = None,
       r_fullAuto = False, r_skipGitRepoCheck = False \<rparr>"

definition override_options :: resume_options where
  "override_options =
     no_options\<lparr> r_maxIterations := Some 15, r_completionPromise := Some ''FINISHED'',
                 r_promiseMode := Some ''plain'', r_samePromptEachIteration := Some True,
                 r_model := Some ''o3'' \<rparr>"

definition empty_promise_options :: resume_options where
  "empty_promise_options = no_options\<lparr> r_completionPromise := Some [] \<rparr>"

definition stored_record :: loop_state where
  "stored_record = scenario_state 2 paused_user_interrupt (JString ''old-session'') None"

definition demo_store :: state_store where
  "demo_store = [''/w/.codex/waylon-smithers/loops/demo.json'' \<mapsto> stored_record]"


text \<open>
  A record that a checkpoint paused after iteration 1 (its flag is set), and resume options
  that only switch on the flag that skips the repository check.
\<close>

definition paused_machine :: machine where
  "paused_machine =
     scenario_machine (scenario_state 1 paused_hard_stop (JString ''s1'')
       (Some (scenario_todo\<lparr>paused_for_hard_stop := True\<rparr>)))"

definition skip_options :: resume_options where
  "skip_options = no_options\<lparr> r_skipGitRepoCheck := True \<rparr>"
section \<open>Substring facts\<close>

lemma includes_iff_sublist: "str_includes s t \<longleftrightarrow> sublist t s"
  by (induction s) (auto simp: sublist_Cons_right)

lemma includes_infix: "str_includes s (a @ t @ b) \<Longrightarrow> str_includes s t"
  unfolding includes_iff_sublist
  by (meson sublist_appendI sublist_order.order_trans)

section \<open>Lemmas about the controller\<close>


lemma spawned_append [simp]: "spawned (xs @ ys) = spawned xs @ spawned ys"
  by (induction xs rule: spawned.induct) auto

lemma saved_append [simp]: "saved (xs @ ys) = saved xs @ saved ys"
  by (induction xs rule: saved.induct) auto

lemma spawned_errors [simp]: "spawned (map ConsoleError ls) = []"
  by (induction ls) auto

lemma saved_errors [simp]: "saved (map ConsoleError ls) = []"
  by (induction ls) auto

lemma persist_state: "state (persist e a m) = (state m)\<lparr>updated_at := nowIso e (clock m)\<rparr>"
  by (simp add: persist_def updateSummary_def saveState_def emit_def Let_def split: option.splits)

lemma persist_saved: "saved (trace (persist e a m)) = saved (trace m) @ [state (persist e a m)]"
  by (simp add: persist_def updateSummary_def saveState_def emit_def Let_def split: option.splits)

lemma persist_spawned: "spawned (trace (persist e a m)) = spawned (trace m)"
  by (simp add: persist_def updateSummary_def saveState_def emit_def Let_def split: option.splits)

lemma persist_clock: "clock (persist e a m) = Suc (clock m)"
  by (simp add: persist_def updateSummary_def saveState_def emit_def Let_def split: option.splits)

lemma spawn_failed_body:
  assumes "\<not> sigintReceived e iter" "child e iter = ChildError msg"
  shows "\<exists>m'. loop_body e a iter m = (m', Return)
     \<and> status (state m') = error_spawn
     \<and> iteration (state m') = iteration (state m)
     \<and> history (state m') = history (state m)
     \<and> saved (trace m') = saved (trace m) @ [state m']
     \<and> spawned (trace m') = spawned (trace m) @ [iter]"
  using assms
  by (simp add: loop_body_def runCodexIteration_def spawn_failed_def Let_def emit_def
        persist_state persist_saved persist_spawned)


lemma bookkeeping_effect:
  assumes "bookkeeping e a iter r m = (m2, d)"
  shows "d = detects e a iter"
    and "iteration (state m2) = iter"
    and "\<exists>rec. history (state m2) = history (state m) @ [rec] \<and> h_iteration rec = iter
            \<and> h_detected_promise rec = d"
    and "todo (state m2) = todo (state m)"
    and "status (state m2) = running"
    and "session_id (codex (state m2)) = sessionId r"
    and "last_result (state m2) = Some \<lparr>exit_code = exitCode r, detected_promise = d\<rparr>"
    and "saved (trace m2) = saved (trace m) @ [state m2]"
    and "spawned (trace m2) = spawned (trace m)"
    and "loop_id (state m2) = loop_id (state m)"
  using assms
  by (auto simp: bookkeeping_def Let_def detects_def final_message_def
        persist_state persist_saved persist_spawned)

lemma emit_simps [simp]:
  "state (emit ev m) = state m" "clock (emit ev m) = clock m" "trace (emit ev m) = trace m @ [ev]"
  by (simp_all add: emit_def)

lemma set_status_simps [simp]:
  "state (set_status st m) = (state m)\<lparr>status := st\<rparr>"
  "trace (set_status st m) = trace m" "clock (set_status st m) = clock m"
  by (simp_all add: set_status_def)

lemma set_paused_flag_simps [simp]:
  "trace (set_paused_flag b m) = trace m" "clock (set_paused_flag b m) = clock m"
  "status (state (set_paused_flag b m)) = status (state m)"
  "iteration (state (set_paused_flag b m)) = iteration (state m)"
  "history (state (set_paused_flag b m)) = history (state m)"
  "codex (state (set_paused_flag b m)) = codex (state m)"
  "todo (state (set_paused_flag b m)) = map_option (\<lambda>t. t\<lparr>paused_for_hard_stop := b\<rparr>) (todo (state m))"
  by (simp_all add: set_paused_flag_def split: option.splits)

lemma persist_fields [simp]:
  "status (state (persist e a m)) = status (state m)"
  "iteration (state (persist e a m)) = iteration (state m)"
  "history (state (persist e a m)) = history (state m)"
  "codex (state (persist e a m)) = codex (state m)"
  "todo (state (persist e a m)) = todo (state m)"
  by (simp_all add: persist_state)

text \<open>The body, once the invocation has succeeded with a session identifier.\<close>

lemma loop_body_success:
  assumes "\<not> sigintReceived e iter" "invocation e iter m = Inr r" "truthy (sessionId r)"
    and "bookkeeping e a iter r (emit (Spawned iter (session_id (codex (state m)) = JNull \<or> samePromptEachIteration a) (session_id (codex (state m)))) m) = (m2, d)"
  shows "loop_body e a iter m =
     (if d then (persist e a (set_status completed m2), Break)
      else (case checkpoint e a iter m2 of
              (m3, Continue) \<Rightarrow> cap_check e a iter m3
            | (m3, fl) \<Rightarrow> (m3, fl)))"
  using assms by (simp add: loop_body_def invocation_def Let_def)



lemma checkpoint_absent:
  assumes "\<not> sentinel_present e a iter"
  shows "checkpoint e a iter m = (m, Continue)"
  using assms by (auto simp add: checkpoint_def sentinel_present_def Let_def)


lemma body_quiet:
  assumes "\<not> sigintReceived e iter" "invocation e iter m = Inr r" "truthy (sessionId r)"
    and "\<not> detects e a iter" "\<not> sentinel_present e a iter"
  shows "\<exists>m'. loop_body e a iter m = (m', if iter \<ge> maxIterations a then Break else Continue)
     \<and> status (state m') = (if iter \<ge> maxIterations a then stopped_max_iterations else running)
     \<and> iteration (state m') = iter
     \<and> session_id (codex (state m')) = sessionId r
     \<and> spawned (trace m') = spawned (trace m) @ [iter]"
proof -
  let ?m1 = "emit (Spawned iter (session_id (codex (state m)) = JNull \<or> samePromptEachIteration a) (session_id (codex (state m)))) m"
  obtain m2 d where bk: "bookkeeping e a iter r ?m1 = (m2, d)"
    by (cases "bookkeeping e a iter r ?m1")
  note eff = bookkeeping_effect [OF bk]
  from eff(1) assms(4) have d: "\<not> d" by simp
  have body: "loop_body e a iter m = cap_check e a iter m2"
    using loop_body_success [OF assms(1-3) bk] d checkpoint_absent [OF assms(5)] by simp
  show ?thesis
    unfolding body using eff
    by (simp add: cap_check_def persist_saved persist_spawned)
qed

lemma persist_progress:
  "same_progress (state (persist e a m)) (state m)"
  "\<exists>new. saved (trace (persist e a m)) = saved (trace m) @ new
      \<and> (\<forall>s\<in>set new. same_progress s (state m))"
  by (simp_all add: same_progress_def persist_saved)

lemma checkpoint_progress:
  assumes "checkpoint e a iter m = (m', fl)"
  shows "same_progress (state m') (state m)"
    and "\<exists>new. saved (trace m') = saved (trace m) @ new \<and> (\<forall>s\<in>set new. same_progress s (state m))"
    and "spawned (trace m') = spawned (trace m)"
    and "status (state m') \<in> {status (state m), paused_hard_stop, running}"
  using assms
  by (auto simp: checkpoint_def Let_def same_progress_def persist_saved persist_spawned
           split: if_splits)

lemma cap_check_progress:
  assumes "cap_check e a iter m = (m', fl)"
  shows "same_progress (state m') (state m)"
    and "\<exists>new. saved (trace m') = saved (trace m) @ new \<and> (\<forall>s\<in>set new. same_progress s (state m))"
    and "spawned (trace m') = spawned (trace m)"
    and "status (state m') \<in> {status (state m), stopped_max_iterations}"
  using assms
  by (auto simp: cap_check_def Let_def same_progress_def persist_saved persist_spawned
           split: if_splits)

lemma failure_progress:
  "same_progress (state (fst (spawn_failed e a msg m))) (state m)"
  "saved (trace (fst (spawn_failed e a msg m))) = saved (trace m) @ [state (fst (spawn_failed e a msg m))]"
  "status (state (fst (spawn_failed e a msg m))) = error_spawn"
  "snd (spawn_failed e a msg m) = Return"
  "same_progress (state (fst (no_session e a m))) (state m)"
  "saved (trace (fst (no_session e a m))) = saved (trace m) @ [state (fst (no_session e a m))]"
  "status (state (fst (no_session e a m))) = error_no_session"
  "snd (no_session e a m) = Return"
  by (simp_all add: spawn_failed_def no_session_def Let_def same_progress_def persist_saved)

text \<open>What one pass through the body does to \<open>iteration\<close>, \<open>history\<close> and the saved records.\<close>

lemma body_progress:
  assumes "loop_body e a iter m = (m', fl)"
  shows "\<exists>new. saved (trace m') = saved (trace m) @ new
            \<and> (\<forall>s\<in>set new. same_progress s (state m'))"
    and "(same_progress (state m') (state m) \<and> fl \<noteq> Continue)
         \<or> (iteration (state m') = iter
             \<and> (\<exists>rec. history (state m') = history (state m) @ [rec] \<and> h_iteration rec = iter)
             \<and> status (state m') \<in> {running, completed, paused_hard_stop, stopped_max_iterations})"
proof -
  let ?m1 = "emit (Spawned iter (session_id (codex (state m)) = JNull \<or> samePromptEachIteration a) (session_id (codex (state m)))) m"
  have both: "(\<exists>new. saved (trace m') = saved (trace m) @ new
            \<and> (\<forall>s\<in>set new. same_progress s (state m')))
      \<and> ((same_progress (state m') (state m) \<and> fl \<noteq> Continue)
         \<or> (iteration (state m') = iter
             \<and> (\<exists>rec. history (state m') = history (state m) @ [rec] \<and> h_iteration rec = iter)
             \<and> status (state m') \<in> {running, completed, paused_hard_stop, stopped_max_iterations}))"
  proof (cases "sigintReceived e iter")
    case True
    with assms show ?thesis by (simp add: loop_body_def same_progress_def)
  next
    case nosig: False
    show ?thesis
    proof (cases "invocation e iter m")
      case (Inl msg)
      with nosig assms have "(m', fl) = spawn_failed e a msg ?m1"
        by (simp add: loop_body_def invocation_def Let_def)
      then have m': "m' = fst (spawn_failed e a msg ?m1)" and fl: "fl = snd (spawn_failed e a msg ?m1)"
        by (metis fst_conv, metis snd_conv)
      show ?thesis
        unfolding m' fl using failure_progress(1-4) [of e a msg ?m1]
        by (simp add: same_progress_def)
    next
      case (Inr r)
      show ?thesis
      proof (cases "truthy (sessionId r)")
        case False
        with nosig Inr assms have "(m', fl) = no_session e a ?m1"
          by (simp add: loop_body_def invocation_def Let_def)
        then have m': "m' = fst (no_session e a ?m1)" and fl: "fl = snd (no_session e a ?m1)"
          by (metis fst_conv, metis snd_conv)
        show ?thesis
          unfolding m' fl using failure_progress(5-8) [of e a ?m1]
          by (simp add: same_progress_def)
      next
        case True
        obtain m2 d where bk: "bookkeeping e a iter r ?m1 = (m2, d)"
          by (cases "bookkeeping e a iter r ?m1")
        note eff = bookkeeping_effect [OF bk]
        note body = loop_body_success [OF nosig Inr True bk]
        show ?thesis
        proof (cases d)
          case True
          with body assms have "m' = persist e a (set_status completed m2)" by simp
          then show ?thesis using eff
            by (auto simp: same_progress_def persist_saved)
        next
          case False
          obtain m3 f3 where cp: "checkpoint e a iter m2 = (m3, f3)"
            by (cases "checkpoint e a iter m2")
          note c = checkpoint_progress [OF cp]
          obtain m4 f4 where cc: "cap_check e a iter m3 = (m4, f4)"
            by (cases "cap_check e a iter m3")
          note k = cap_check_progress [OF cc]
          from c(2) obtain new3 where n3: "saved (trace m3) = saved (trace m2) @ new3"
            "\<forall>s\<in>set new3. same_progress s (state m2)" by blast
          from k(2) obtain new4 where n4: "saved (trace m4) = saved (trace m3) @ new4"
            "\<forall>s\<in>set new4. same_progress s (state m3)" by blast
          show ?thesis
          proof (cases "f3 = Continue")
            case True
            with body False cp cc assms have m': "m' = m4" by simp
            show ?thesis
              unfolding m' using eff c(1,4) k(1,4) n3 n4
              by (auto simp: same_progress_def)
          next
            case nc: False
            with body False cp assms have m': "m' = m3"
              by (cases f3) simp_all
            show ?thesis
              unfolding m' using eff c(1,4) n3
              by (auto simp: same_progress_def)
          qed
        qed
      qed
    qed
  qed
  from both show "\<exists>new. saved (trace m') = saved (trace m) @ new
            \<and> (\<forall>s\<in>set new. same_progress s (state m'))" by blast
  from both show "(same_progress (state m') (state m) \<and> fl \<noteq> Continue)
         \<or> (iteration (state m') = iter
             \<and> (\<exists>rec. history (state m') = history (state m) @ [rec] \<and> h_iteration rec = iter)
             \<and> status (state m') \<in> {running, completed, paused_hard_stop, stopped_max_iterations})" by blast
qed

lemma appended_since_refl:
  "length (history s) = iteration s \<Longrightarrow> appended_since s s"
  by (simp add: appended_since_def)

lemma appended_since_same:
  "appended_since s0 s \<Longrightarrow> same_progress t s \<Longrightarrow> appended_since s0 t"
  by (simp add: appended_since_def same_progress_def)

lemma appended_since_step:
  assumes "appended_since s0 s" "iteration t = Suc (iteration s)"
    "history t = history s @ [rec]" "h_iteration rec = Suc (iteration s)"
  shows "appended_since s0 t"
proof -
  from assms(1) obtain new where n: "history s = history s0 @ new"
    "map h_iteration new = [Suc (iteration s0) ..< Suc (iteration s)]"
    and le: "iteration s0 \<le> iteration s" and len: "length (history s) = iteration s"
    by (auto simp: appended_since_def)
  have "history t = history s0 @ (new @ [rec])" using n(1) assms(3) by simp
  moreover have "map h_iteration (new @ [rec]) = [Suc (iteration s0) ..< Suc (iteration t)]"
    using n(2) assms(2,4) le by simp
  ultimately show ?thesis
    unfolding appended_since_def using assms(2,3) le len by fastforce
qed

lemma loop_append:
  assumes "appended_since s0 (state m)" "Suc (iteration (state m)) = iter"
  shows "appended_since s0 (state (loop_from e a iter m))
     \<and> (\<exists>snaps. saved (trace (loop_from e a iter m)) = saved (trace m) @ snaps
           \<and> (\<forall>s\<in>set snaps. appended_since s0 s))"
  using assms
proof (induction "Suc (maxIterations a) - iter" arbitrary: iter m)
  case 0
  then have "loop_from e a iter m = m"
    by (simp add: loop_from.simps [of e a iter m])
  with "0.prems" show ?case by simp
next
  case (Suc n)
  then have le: "iter \<le> maxIterations a" by simp
  obtain m1 fl where body: "loop_body e a iter m = (m1, fl)"
    by (cases "loop_body e a iter m")
  from body_progress(1) [OF body] obtain new where
    new: "saved (trace m1) = saved (trace m) @ new" "\<forall>s\<in>set new. same_progress s (state m1)"
    by blast
  note disj = body_progress(2) [OF body]
  have m1: "appended_since s0 (state m1)"
  proof -
    from disj show ?thesis
    proof
      assume "same_progress (state m1) (state m) \<and> fl \<noteq> Continue"
      with Suc.prems(1) show ?thesis by (blast intro: appended_since_same)
    next
      assume b: "iteration (state m1) = iter
         \<and> (\<exists>rec. history (state m1) = history (state m) @ [rec] \<and> h_iteration rec = iter)
         \<and> status (state m1) \<in> {running, completed, paused_hard_stop, stopped_max_iterations}"
      then obtain rec where "history (state m1) = history (state m) @ [rec]" "h_iteration rec = iter"
        by blast
      with b Suc.prems show ?thesis
        by (auto intro: appended_since_step)
    qed
  qed
  have snaps1: "\<forall>s\<in>set new. appended_since s0 s"
    using new(2) m1 by (blast intro: appended_since_same)
  show ?case
  proof (cases "fl = Continue")
    case False
    with le body have "loop_from e a iter m = m1"
      by (cases fl) (simp_all add: loop_from.simps [of e a iter m])
    with m1 new(1) snaps1 show ?thesis by simp
  next
    case True
    with le body have unfold: "loop_from e a iter m = loop_from e a (Suc iter) m1"
      by (simp add: loop_from.simps [of e a iter m])
    from True disj have it: "iteration (state m1) = iter" by blast
    have "n = Suc (maxIterations a) - Suc iter" using Suc.hyps(2) by simp
    from Suc.hyps(1) [OF this m1] it
    have ih: "appended_since s0 (state (loop_from e a (Suc iter) m1))
       \<and> (\<exists>snaps. saved (trace (loop_from e a (Suc iter) m1)) = saved (trace m1) @ snaps
             \<and> (\<forall>s\<in>set snaps. appended_since s0 s))" by simp
    then obtain snaps where sn: "saved (trace (loop_from e a (Suc iter) m1)) = saved (trace m1) @ snaps"
      "\<forall>s\<in>set snaps. appended_since s0 s" by blast
    have "saved (trace (loop_from e a (Suc iter) m1)) = saved (trace m) @ (new @ snaps)"
      using sn(1) new(1) by simp
    moreover have "\<forall>s\<in>set (new @ snaps). appended_since s0 s"
      using snaps1 sn(2) by auto
    ultimately show ?thesis unfolding unfold using ih by blast
  qed
qed

lemma loop_entry_simps [simp]:
  "iteration (state (loop_entry e a m)) = iteration (state m)"
  "history (state (loop_entry e a m)) = history (state m)"
  "status (state (loop_entry e a m)) = status (state m)"
  "codex (state (loop_entry e a m)) = codex (state m)"
  "todo (state (loop_entry e a m)) = todo (state m)"
  "saved (trace (loop_entry e a m)) = saved (trace m)"
  "spawned (trace (loop_entry e a m)) = spawned (trace m)"
  by (simp_all add: loop_entry_def warnDangerous_def Let_def)

lemma runLoop_unfold:
  "runLoop e a m = loop_from e a (Suc (iteration (state m))) (loop_entry e a m)"
  by (simp add: runLoop_def Let_def)

lemma resolve_truthy:
  "truthy (resolveSessionId P sid out err) \<longleftrightarrow>
     truthy (resolveSessionId P JNull out err) \<or> truthy sid"
  by (simp add: resolveSessionId_def js_or_def Let_def)

lemma closes_invocation:
  assumes "closes e i" "truthy (session_id (codex (state m))) \<or> reports_session e i"
  shows "\<exists>r. invocation e i m = Inr r \<and> truthy (sessionId r)"
proof (cases "child e i")
  case (ChildError message)
  with assms(1) show ?thesis by (simp add: closes_def)
next
  case (ChildClosed code out err)
  with assms(2) have "truthy (resolveSessionId (js_JSON_parse e) (session_id (codex (state m))) out err)"
    using resolve_truthy [of "js_JSON_parse e" "session_id (codex (state m))" out err]
    by (auto simp: reports_session_def)
  with ChildClosed show ?thesis
    by (simp add: invocation_def runCodexIteration_def)
qed

lemma loop_exhaust:
  assumes "iter \<le> maxIterations a"
    and "\<forall>i. iter \<le> i \<and> i \<le> maxIterations a \<longrightarrow> quiet e a i"
    and "truthy (session_id (codex (state m))) \<or> reports_session e iter"
  shows "status (state (loop_from e a iter m)) = stopped_max_iterations
     \<and> iteration (state (loop_from e a iter m)) = maxIterations a
     \<and> spawned (trace (loop_from e a iter m)) = spawned (trace m) @ [iter ..< Suc (maxIterations a)]"
  using assms
proof (induction "maxIterations a - iter" arbitrary: iter m)
  case 0
  then have eq: "iter = maxIterations a" by simp
  from "0.prems"(2) "0.prems"(1) have q: "quiet e a iter" by blast
  from closes_invocation [of e iter m] q "0.prems"(3) obtain r where
    r: "invocation e iter m = Inr r" "truthy (sessionId r)"
    by (auto simp: quiet_def)
  from q have q': "\<not> sigintReceived e iter" "\<not> detects e a iter" "\<not> sentinel_present e a iter"
    by (simp_all add: quiet_def)
  from body_quiet [OF q'(1) r q'(2,3)] eq obtain m' where
    m': "loop_body e a iter m = (m', Break)" "status (state m') = stopped_max_iterations"
      "iteration (state m') = iter" "spawned (trace m') = spawned (trace m) @ [iter]"
    by auto
  from m'(1) "0.prems"(1) have "loop_from e a iter m = m'"
    by (simp add: loop_from.simps [of e a iter m])
  with m' eq show ?case by simp
next
  case (Suc n)
  then have lt: "iter < maxIterations a" by simp
  from Suc.prems(2) lt have q: "quiet e a iter" by simp
  from closes_invocation [of e iter m] q Suc.prems(3) obtain r where
    r: "invocation e iter m = Inr r" "truthy (sessionId r)"
    by (auto simp: quiet_def)
  from q have q': "\<not> sigintReceived e iter" "\<not> detects e a iter" "\<not> sentinel_present e a iter"
    by (simp_all add: quiet_def)
  from body_quiet [OF q'(1) r q'(2,3)] lt r(2) obtain m' where
    m': "loop_body e a iter m = (m', Continue)" "truthy (session_id (codex (state m')))"
      "spawned (trace m') = spawned (trace m) @ [iter]"
    by auto
  from m'(1) lt have unfold: "loop_from e a iter m = loop_from e a (Suc iter) m'"
    by (simp add: loop_from.simps [of e a iter m])
  have n: "n = maxIterations a - Suc iter" using Suc.hyps(2) by simp
  have le: "Suc iter \<le> maxIterations a" using lt by simp
  have qs: "\<forall>i. Suc iter \<le> i \<and> i \<le> maxIterations a \<longrightarrow> quiet e a i"
    using Suc.prems(2) by simp
  from Suc.hyps(1) [OF n le qs] m'(2)
  have ih: "status (state (loop_from e a (Suc iter) m')) = stopped_max_iterations
     \<and> iteration (state (loop_from e a (Suc iter) m')) = maxIterations a
     \<and> spawned (trace (loop_from e a (Suc iter) m')) = spawned (trace m') @ [Suc iter ..< Suc (maxIterations a)]"
    by simp
  have "[iter ..< Suc (maxIterations a)] = iter # [Suc iter ..< Suc (maxIterations a)]"
    using lt by (simp add: upt_conv_Cons)
  with ih m'(3) show ?case unfolding unfold by simp
qed

lemmas json_eval = json_parse_def skip_ws_def json_ws_def
lemmas session_eval = resolveSessionId_def
  parseSessionIdFromJsonLines_def parseSessionIdFromText_def js_or_def of_option_def
  startsWith_def trim_def is_space_def event_session_id_def is_uuid_def hex_run_def is_hex_def
lemmas scenario_eval = scenario_env_def scenario_args_def scenario_state_def scenario_machine_def
  scenario_files_def scenario_last_path_def scenario_options_def scenario_todo_def
  child_ok_def child_silent_def child_enoent_def
lemmas scenario_names = tie_env_def working_env_def quiet_env_def missing_env_def enoent_env_def
  silent_env_def checklist_args_def plain_args_def fresh_machine_def capped_machine_def
lemmas detect_eval = detects_def final_message_def readFileSafe_def lastMessagePathOf_def
  detectCompletion_def sentinel_present_def checkHardStop_def truthy_str_def

lemma child_ok_session:
  "resolveSessionId json_parse resume ''{\"session_id\": \"s1\"}'' [] = JString ''s1''"
  by (simp add: session_eval json_eval)

lemma child_silent_session:
  "resolveSessionId json_parse JNull ''no identifier here'' [] = JNull"
  by (simp add: session_eval json_eval)

lemma child_ok_reaches:
  "child e i = child_ok \<Longrightarrow> js_JSON_parse e = json_parse \<Longrightarrow> \<not> sigintReceived e i \<Longrightarrow>
   reaches_bookkeeping e i m"
  by (simp add: reaches_bookkeeping_def invocation_def runCodexIteration_def child_ok_def
        child_ok_session)

lemma reaches_obtain:
  assumes "reaches_bookkeeping e iter m"
  obtains r where "\<not> sigintReceived e iter" "invocation e iter m = Inr r" "truthy (sessionId r)"
  using assms by (auto simp: reaches_bookkeeping_def split: sum.splits)

lemma loop_from_stop:
  assumes "iter \<le> maxIterations a" "loop_body e a iter m = (m', fl)" "fl \<noteq> Continue"
  shows "loop_from e a iter m = m'"
  using assms by (cases fl) (simp_all add: loop_from.simps [of e a iter m])

lemma loop_from_done:
  assumes "\<not> iter \<le> maxIterations a"
  shows "loop_from e a iter m = m"
  using assms by (simp add: loop_from.simps [of e a iter m])

text \<open>The record appended by an iteration that reaches the bookkeeping step.\<close>

lemma body_record:
  assumes "reaches_bookkeeping e iter m" "loop_body e a iter m = (m', fl)"
  shows "\<exists>rec. history (state m') = history (state m) @ [rec] \<and> h_iteration rec = iter
            \<and> h_detected_promise rec = detects e a iter"
    and "(status (state m') = completed) = detects e a iter"
    and "iteration (state m') = iter"
proof -
  from assms(1) obtain r where r: "\<not> sigintReceived e iter" "invocation e iter m = Inr r"
    "truthy (sessionId r)" by (rule reaches_obtain)
  let ?m1 = "emit (Spawned iter (session_id (codex (state m)) = JNull \<or> samePromptEachIteration a) (session_id (codex (state m)))) m"
  obtain m2 d where bk: "bookkeeping e a iter r ?m1 = (m2, d)"
    by (cases "bookkeeping e a iter r ?m1")
  note eff = bookkeeping_effect [OF bk]
  note body = loop_body_success [OF r bk]
  have all: "(\<exists>rec. history (state m') = history (state m) @ [rec] \<and> h_iteration rec = iter
            \<and> h_detected_promise rec = detects e a iter)
      \<and> (status (state m') = completed) = detects e a iter \<and> iteration (state m') = iter"
  proof (cases d)
    case True
    with body assms(2) have "m' = persist e a (set_status completed m2)" by simp
    with eff True show ?thesis by auto
  next
    case False
    obtain m3 f3 where cp: "checkpoint e a iter m2 = (m3, f3)"
      by (cases "checkpoint e a iter m2")
    note c = checkpoint_progress [OF cp]
    obtain m4 f4 where cc: "cap_check e a iter m3 = (m4, f4)"
      by (cases "cap_check e a iter m3")
    note k = cap_check_progress [OF cc]
    show ?thesis
    proof (cases "f3 = Continue")
      case True
      with body False cp cc assms(2) have m': "m' = m4" by simp
      show ?thesis
        unfolding m' using eff c(1,4) k(1,4) False
        by (auto simp: same_progress_def)
    next
      case nc: False
      with body False cp assms(2) have m': "m' = m3"
        by (cases f3) simp_all
      show ?thesis
        unfolding m' using eff c(1,4) False
        by (auto simp: same_progress_def)
    qed
  qed
  from all show "\<exists>rec. history (state m') = history (state m) @ [rec] \<and> h_iteration rec = iter
            \<and> h_detected_promise rec = detects e a iter" by blast
  from all show "(status (state m') = completed) = detects e a iter" by blast
  from all show "iteration (state m') = iter" by blast
qed

lemma body_not_reached:
  assumes "\<not> reaches_bookkeeping e iter m"
  shows "status (state (fst (loop_body e a iter m))) \<in> {status (state m), error_spawn, error_no_session}"
  using assms failure_progress(3,7)
  by (auto simp: reaches_bookkeeping_def loop_body_def invocation_def Let_def split: sum.splits)

lemma body_spawned:
  assumes "loop_body e a iter m = (m', fl)"
  shows "spawned (trace m') = spawned (trace m) @ (if sigintReceived e iter then [] else [iter])"
proof (cases "sigintReceived e iter")
  case True
  with assms show ?thesis by (simp add: loop_body_def)
next
  case nosig: False
  let ?m1 = "emit (Spawned iter (session_id (codex (state m)) = JNull \<or> samePromptEachIteration a) (session_id (codex (state m)))) m"
  show ?thesis
  proof (cases "invocation e iter m")
    case (Inl msg)
    with nosig assms have "m' = fst (spawn_failed e a msg ?m1)"
      by (simp add: loop_body_def invocation_def Let_def)
    with nosig show ?thesis
      by (simp add: spawn_failed_def Let_def persist_spawned)
  next
    case (Inr r)
    show ?thesis
    proof (cases "truthy (sessionId r)")
      case False
      with nosig Inr assms have "m' = fst (no_session e a ?m1)"
        by (simp add: loop_body_def invocation_def Let_def)
      with nosig show ?thesis
        by (simp add: no_session_def Let_def persist_spawned)
    next
      case True
      obtain m2 d where bk: "bookkeeping e a iter r ?m1 = (m2, d)"
        by (cases "bookkeeping e a iter r ?m1")
      note eff = bookkeeping_effect [OF bk]
      note body = loop_body_success [OF nosig Inr True bk]
      show ?thesis
      proof (cases d)
        case True
        with body assms have "m' = persist e a (set_status completed m2)" by simp
        with eff nosig show ?thesis by (simp add: persist_spawned)
      next
        case False
        obtain m3 f3 where cp: "checkpoint e a iter m2 = (m3, f3)"
          by (cases "checkpoint e a iter m2")
        note c = checkpoint_progress [OF cp]
        obtain m4 f4 where cc: "cap_check e a iter m3 = (m4, f4)"
          by (cases "cap_check e a iter m3")
        note k = cap_check_progress [OF cc]
        show ?thesis
        proof (cases "f3 = Continue")
          case True
          with body False cp cc assms have m': "m' = m4" by simp
          show ?thesis unfolding m' using eff c(3) k(3) nosig by simp
        next
          case nc: False
          with body False cp assms have m': "m' = m3" by (cases f3) simp_all
          show ?thesis unfolding m' using eff c(3) nosig by simp
        qed
      qed
    qed
  qed
qed

lemma body_continue_nosig:
  assumes "loop_body e a iter m = (m', Continue)"
  shows "\<not> sigintReceived e iter"
  using assms by (auto simp: loop_body_def)

text \<open>The children of a run are numbered consecutively from the entry value of the loop variable.\<close>

lemma loop_spawned:
  "\<exists>k. spawned (trace (loop_from e a iter m)) = spawned (trace m) @ [iter ..< iter + k]"
proof (induction "Suc (maxIterations a) - iter" arbitrary: iter m)
  case 0
  then have "loop_from e a iter m = m" by (simp add: loop_from_done)
  then have "spawned (trace (loop_from e a iter m)) = spawned (trace m) @ [iter ..< iter + 0]"
    by simp
  then show ?case by blast
next
  case (Suc n)
  then have le: "iter \<le> maxIterations a" by simp
  obtain m1 fl where body: "loop_body e a iter m = (m1, fl)"
    by (cases "loop_body e a iter m")
  note sp = body_spawned [OF body]
  show ?case
  proof (cases "fl = Continue")
    case False
    from loop_from_stop [OF le body False] have eq: "loop_from e a iter m = m1" .
    show ?thesis
    proof (cases "sigintReceived e iter")
      case True
      with sp eq have "spawned (trace (loop_from e a iter m)) = spawned (trace m) @ [iter ..< iter + 0]"
        by simp
      then show ?thesis by blast
    next
      case False
      with sp eq have "spawned (trace (loop_from e a iter m)) = spawned (trace m) @ [iter ..< iter + 1]"
        by simp
      then show ?thesis by blast
    qed
  next
    case True
    with le body have unfold: "loop_from e a iter m = loop_from e a (Suc iter) m1"
      by (simp add: loop_from.simps [of e a iter m])
    from True body have nosig: "\<not> sigintReceived e iter" by (simp add: body_continue_nosig)
    have "n = Suc (maxIterations a) - Suc iter" using Suc.hyps(2) by simp
    from Suc.hyps(1) [OF this, of m1] obtain k where
      k: "spawned (trace (loop_from e a (Suc iter) m1)) = spawned (trace m1) @ [Suc iter ..< Suc iter + k]"
      by blast
    have "iter # [Suc iter ..< Suc iter + k] = [iter ..< iter + Suc k]"
      by (simp add: upt_conv_Cons)
    with k sp nosig have "spawned (trace (loop_from e a iter m)) = spawned (trace m) @ [iter ..< iter + Suc k]"
      unfolding unfold by simp
    then show ?thesis by blast
  qed
qed

lemma body_error_unchanged:
  assumes "loop_body e a iter m0 = (m1, fl)" "status (state m1) \<in> {error_spawn, error_no_session}"
  shows "iteration (state m1) = iteration (state m0) \<and> history (state m1) = history (state m0)"
  using body_progress(2) [OF assms(1)] assms(2)
  by (auto simp: same_progress_def)

lemma scenario_quiet:
  "quiet quiet_env plain_args i"
  by (simp add: quiet_def closes_def detect_eval scenario_names scenario_eval)

lemma scenario_no_match:
  "\<not> detects enoent_env plain_args i" "\<not> sentinel_present enoent_env plain_args i"
  "\<not> detects silent_env plain_args i" "\<not> sentinel_present silent_env plain_args i"
  "\<not> detects quiet_env plain_args i" "\<not> sentinel_present quiet_env plain_args i"
  by (simp_all add: detect_eval scenario_names scenario_eval)


lemmas regexp_eval = regexp_fragment_def parse_atom_def escape_atom_def is_alnum_def
  in_ranges_def digit_ranges_def done_digits_def

lemma event_session_id_truthy: "event_session_id ev = Some j \<Longrightarrow> truthy j"
  by (auto simp: event_session_id_def split: if_splits)

lemma scan_Cons:
  "scan_json_lines P (l # ls) =
     (case line_session_id P l of Some j \<Rightarrow> Some j | None \<Rightarrow> scan_json_lines P ls)"
  by (simp add: line_session_id_def split: option.splits)

lemma scan_truthy: "scan_json_lines P ls = Some j \<Longrightarrow> truthy j"
  by (induction ls) (auto simp: scan_Cons line_session_id_def event_session_id_truthy
        split: option.splits if_splits simp del: scan_json_lines.simps(2))

lemma scan_first:
  "\<forall>l\<in>set before. line_session_id P l = None \<Longrightarrow> line_session_id P line = Some j \<Longrightarrow>
   scan_json_lines P (before @ line # after) = Some j"
  by (induction before) (simp_all add: scan_Cons del: scan_json_lines.simps(2))

lemma scan_None:
  "scan_json_lines P ls = None \<longleftrightarrow> (\<forall>l\<in>set ls. line_session_id P l = None)"
  by (induction ls) (auto simp: scan_Cons split: option.splits simp del: scan_json_lines.simps(2))

lemma is_uuid_length: "is_uuid u \<Longrightarrow> length u = 36"
  by (simp add: is_uuid_def)

lemma match_uuid_None: "match_uuid s = None \<longleftrightarrow> (\<forall>k. \<not> uuid_at s k)"
proof (induction s)
  case Nil
  show ?case by (simp add: uuid_at_def is_uuid_def)
next
  case (Cons c cs)
  have shift: "uuid_at (c # cs) (Suc k) = uuid_at cs k" for k
    by (simp add: uuid_at_def)
  have zero: "uuid_at (c # cs) 0 = is_uuid (take 36 (c # cs))"
    by (simp add: uuid_at_def)
  show ?case
  proof (cases "is_uuid (take 36 (c # cs))")
    case True
    with zero show ?thesis by auto
  next
    case False
    have "(\<forall>k. \<not> uuid_at (c # cs) k) \<longleftrightarrow> (\<forall>k. \<not> uuid_at cs k)"
    proof
      assume a: "\<forall>k. \<not> uuid_at (c # cs) k"
      show "\<forall>k. \<not> uuid_at cs k" using a shift by blast
    next
      assume a: "\<forall>k. \<not> uuid_at cs k"
      show "\<forall>k. \<not> uuid_at (c # cs) k"
      proof
        fix k show "\<not> uuid_at (c # cs) k"
          using a shift zero False by (cases k) auto
      qed
    qed
    with False Cons show ?thesis by simp
  qed
qed

lemma match_uuid_Some:
  "match_uuid s = Some u \<Longrightarrow>
   \<exists>k. uuid_at s k \<and> u = take 36 (drop k s) \<and> (\<forall>j<k. \<not> uuid_at s j)"
proof (induction s)
  case Nil
  then show ?case by simp
next
  case (Cons c cs)
  have shift: "uuid_at (c # cs) (Suc k) = uuid_at cs k" for k
    by (simp add: uuid_at_def)
  have zero: "uuid_at (c # cs) 0 = is_uuid (take 36 (c # cs))"
    by (simp add: uuid_at_def)
  show ?case
  proof (cases "is_uuid (take 36 (c # cs))")
    case True
    with Cons.prems have "u = take 36 (drop 0 (c # cs))" by simp
    with True zero show ?thesis by blast
  next
    case False
    with Cons.prems have "match_uuid cs = Some u" by simp
    from Cons.IH [OF this] obtain k where
      k: "uuid_at cs k" "u = take 36 (drop k cs)" "\<forall>j<k. \<not> uuid_at cs j" by blast
    have "\<forall>j<Suc k. \<not> uuid_at (c # cs) j"
    proof (intro allI impI)
      fix j assume "j < Suc k"
      then show "\<not> uuid_at (c # cs) j"
        using k(3) shift zero False by (cases j) auto
    qed
    moreover have "uuid_at (c # cs) (Suc k)" using k(1) shift by simp
    moreover have "u = take 36 (drop (Suc k) (c # cs))" using k(2) by simp
    ultimately show ?thesis by blast
  qed
qed

lemma first_uuid_line_Some:
  "first_uuid_line ls = Some u \<Longrightarrow>
   \<exists>before line after. ls = before @ line # after
      \<and> (\<forall>l\<in>set before. match_uuid l = None) \<and> match_uuid line = Some u"
proof (induction ls)
  case Nil
  then show ?case by simp
next
  case (Cons l ls)
  show ?case
  proof (cases "match_uuid l")
    case None
    with Cons.prems have "first_uuid_line ls = Some u" by simp
    from Cons.IH [OF this] obtain before line after where
      d: "ls = before @ line # after" "\<forall>l\<in>set before. match_uuid l = None"
         "match_uuid line = Some u" by blast
    have "l # ls = (l # before) @ line # after" using d(1) by simp
    moreover have "\<forall>x\<in>set (l # before). match_uuid x = None" using d(2) None by simp
    ultimately show ?thesis using d(3) by blast
  next
    case (Some v)
    with Cons.prems have "v = u" by simp
    with Some have "l # ls = [] @ l # ls \<and> (\<forall>x\<in>set []. match_uuid x = None) \<and> match_uuid l = Some u"
      by simp
    then show ?thesis by blast
  qed
qed

lemma first_uuid_line_None:
  "first_uuid_line ls = None \<longleftrightarrow> (\<forall>l\<in>set ls. match_uuid l = None)"
  by (induction ls) (auto split: option.splits)

lemma text_result_nonempty: "parseSessionIdFromText t = Some u \<Longrightarrow> u \<noteq> []"
proof -
  assume "parseSessionIdFromText t = Some u"
  then have "first_uuid_line (split_lines t) = Some u"
    by (simp add: parseSessionIdFromText_def)
  from first_uuid_line_Some [OF this] obtain line where "match_uuid line = Some u"
    by blast
  from match_uuid_Some [OF this] have "is_uuid u" by (auto simp: uuid_at_def)
  then show ?thesis using is_uuid_length by fastforce
qed

lemma resolve_order:
  "resolveSessionId P resume out err =
     (case parseSessionIdFromJsonLines P (out @ [LF] @ err) of
        Some j \<Rightarrow> j
      | None \<Rightarrow>
          (case parseSessionIdFromText out of
             Some u \<Rightarrow> JString u
           | None \<Rightarrow>
               (case parseSessionIdFromText err of
                  Some u \<Rightarrow> JString u
                | None \<Rightarrow> if truthy resume then resume else JNull)))"
proof (cases "parseSessionIdFromJsonLines P (out @ [LF] @ err)")
  case (Some j)
  then have "truthy j" by (auto simp: parseSessionIdFromJsonLines_def dest: scan_truthy)
  with Some show ?thesis
    by (simp add: resolveSessionId_def js_or_def of_option_def Let_def)
next
  case None
  show ?thesis
  proof (cases "parseSessionIdFromText out")
    case (Some u)
    with text_result_nonempty have "u \<noteq> []" by blast
    with Some None show ?thesis
      by (simp add: resolveSessionId_def js_or_def of_option_def Let_def)
  next
    case outNone: None
    show ?thesis
    proof (cases "parseSessionIdFromText err")
      case (Some u)
      with text_result_nonempty have "u \<noteq> []" by blast
      with Some None outNone show ?thesis
        by (simp add: resolveSessionId_def js_or_def of_option_def Let_def)
    next
      case errNone: None
      with None outNone show ?thesis
        by (simp add: resolveSessionId_def js_or_def of_option_def Let_def)
    qed
  qed
qed

lemma first_event_wins:
  assumes "filter (\<lambda>l. l \<noteq> []) (split_lines (out @ [LF] @ err)) = before @ line # after"
    and "\<forall>l\<in>set before. line_session_id P l = None"
    and "startsWith (trim line) ''{''" "P line = Some ev"
    and "get_prop ev ''session_id'' = JString A" "A \<noteq> []"
  shows "resolveSessionId P resume out err = JString A"
proof -
  from assms(3-6) have "line_session_id P line = Some (JString A)"
    by (simp add: line_session_id_def event_session_id_def)
  from scan_first [OF assms(2) this] assms(1)
  have "parseSessionIdFromJsonLines P (out @ [LF] @ err) = Some (JString A)"
    by (simp add: parseSessionIdFromJsonLines_def)
  then show ?thesis by (simp add: resolve_order)
qed

lemma out_one_lines:
  "split_lines (out_one @ [LF] @ []) = [event_line ''A'', ''session: '' @ bare_uuid, []]"
  by (simp add: out_one_def event_line_def bare_uuid_def)

lemma out_two_lines:
  "split_lines (out_two @ [LF] @ []) =
     [event_line ''C'', event_line ''A'', ''session: '' @ bare_uuid, []]"
  by (simp add: out_two_def event_line_def bare_uuid_def)

lemma event_line_parse:
  "json_parse (event_line ''A'') = Some (JObject [(''session_id'', JString ''A'')])"
  "json_parse (event_line ''C'') = Some (JObject [(''session_id'', JString ''C'')])"
  by (simp_all add: event_line_def json_eval)

lemma out_uuid:
  "parseSessionIdFromText out_one = Some bare_uuid"
  "parseSessionIdFromText out_two = Some bare_uuid"
  by (simp_all add: out_one_def out_two_def event_line_def bare_uuid_def session_eval)


lemma resume_step_Inr:
  assumes "resume_step e store options = Inr (m, a)"
  shows "\<exists>s opts. store (statePath a) = Some s
     \<and> m = saveState e (statePath a) \<lparr> state = apply_overrides options opts s, clock = 0, trace = [] \<rparr>
     \<and> opts = buildCodexOptions options (workspaceRoot a) no_fallback
     \<and> codexOptions a = opts
     \<and> completionPromise a = completion_promise (state m)
     \<and> promiseMode a = promise_mode (state m)
     \<and> maxIterations a = max_iterations (state m)
     \<and> samePromptEachIteration a = same_prompt_each_iteration (state m)"
  using assms
  by (auto simp: resume_step_def loadState_def Let_def split: sum.splits option.splits)

lemma saveState_fields:
  "state (saveState e p m) = (state m)\<lparr>updated_at := nowIso e (clock m)\<rparr>"
  "trace (saveState e p m) = trace m @ [StateSaved p ((state m)\<lparr>updated_at := nowIso e (clock m)\<rparr>)]"
  by (simp_all add: saveState_def Let_def)

lemma apply_overrides_frame:
  "loop_id (apply_overrides options opts s) = loop_id s"
  "prompt (apply_overrides options opts s) = prompt s"
  "session_id (codex (apply_overrides options opts s)) = session_id (codex s)"
  "history (apply_overrides options opts s) = history s"
  "iteration (apply_overrides options opts s) = iteration s"
  "status (apply_overrides options opts s) = status s"
  "todo (apply_overrides options opts s) = todo s"
  by (simp_all add: apply_overrides_def Let_def split: option.splits)

lemma apply_overrides_values:
  "r_maxIterations options = Some n \<Longrightarrow> n \<noteq> 0 \<Longrightarrow> max_iterations (apply_overrides options opts s) = n"
  "r_completionPromise options = Some c \<Longrightarrow> c \<noteq> [] \<Longrightarrow> completion_promise (apply_overrides options opts s) = c"
  "r_promiseMode options = Some pm \<Longrightarrow> pm \<noteq> [] \<Longrightarrow> promise_mode (apply_overrides options opts s) = pm"
  "r_samePromptEachIteration options = Some b \<Longrightarrow> same_prompt_each_iteration (apply_overrides options opts s) = b"
  "model (codex (apply_overrides options opts s)) = o_model opts"
  "profile (codex (apply_overrides options opts s)) = o_profile opts"
  "sandbox (codex (apply_overrides options opts s)) = o_sandbox opts"
  "approval (codex (apply_overrides options opts s)) = o_askForApproval opts"
  by (simp_all add: apply_overrides_def Let_def split: option.splits)

lemma buildCodexOptions_values:
  "r_model options = Some x \<Longrightarrow> x \<noteq> [] \<Longrightarrow> o_model (buildCodexOptions options root fb) = Some x"
  "r_profile options = Some x \<Longrightarrow> x \<noteq> [] \<Longrightarrow> o_profile (buildCodexOptions options root fb) = Some x"
  "r_sandbox options = Some x \<Longrightarrow> x \<noteq> [] \<Longrightarrow> o_sandbox (buildCodexOptions options root fb) = Some x"
  "r_askForApproval options = Some x \<Longrightarrow> x \<noteq> [] \<Longrightarrow> o_askForApproval (buildCodexOptions options root fb) = Some x"
  by (simp_all add: buildCodexOptions_def str_or_def truthy_str_def Let_def)

lemmas resume_eval = resume_step_def resolveStatePath_def loadState_def demo_store_def
  no_options_def override_options_def empty_promise_options_def stored_record_def
  apply_overrides_def buildCodexOptions_def no_fallback_def str_or_def truthy_str_def
  saveState_def scenario_env_def scenario_state_def quiet_env_def

lemma override_resume:
  "\<exists>m a. resume_step quiet_env demo_store override_options = Inr (m, a)"
  by (simp add: resume_eval Let_def)


lemma body_unreached:
  assumes "\<not> reaches_bookkeeping e iter m" "loop_body e a iter m = (m', fl)"
  shows "iteration (state m') = iteration (state m) \<and> history (state m') = history (state m)"
proof (cases "sigintReceived e iter")
  case True
  with assms(2) show ?thesis by (simp add: loop_body_def)
next
  case nosig: False
  let ?m1 = "emit (Spawned iter (session_id (codex (state m)) = JNull \<or> samePromptEachIteration a) (session_id (codex (state m)))) m"
  show ?thesis
  proof (cases "invocation e iter m")
    case (Inl msg)
    with nosig assms(2) have "m' = fst (spawn_failed e a msg ?m1)"
      by (simp add: loop_body_def invocation_def Let_def)
    then show ?thesis
      using failure_progress(1) [of e a msg ?m1] by (simp add: same_progress_def)
  next
    case (Inr r)
    with nosig assms(1) have nt: "\<not> truthy (sessionId r)"
      by (simp add: reaches_bookkeeping_def)
    with nosig Inr assms(2) have "m' = fst (no_session e a ?m1)"
      by (simp add: loop_body_def invocation_def Let_def)
    then show ?thesis
      using failure_progress(5) [of e a ?m1] by (simp add: same_progress_def)
  qed
qed

lemma paused_tie:
  "reaches_bookkeeping tie_env 2 paused_machine"
  "detects tie_env checklist_args 2"
  "sentinel_present tie_env checklist_args 2"
  "2 \<le> maxIterations checklist_args"
  "paused_flag (state paused_machine)"
  "iteration (state paused_machine) = 1"
  "history (state paused_machine) = [scenario_record 1]"
proof -
  show "reaches_bookkeeping tie_env 2 paused_machine"
    by (rule child_ok_reaches) (simp_all add: tie_env_def scenario_env_def)
  show "detects tie_env checklist_args 2"
    by (simp add: detect_eval scenario_names scenario_eval)
  show "sentinel_present tie_env checklist_args 2"
    by (simp add: detect_eval scenario_names scenario_eval)
  show "2 \<le> maxIterations checklist_args"
    by (simp add: scenario_names scenario_eval)
  show "paused_flag (state paused_machine)"
    by (simp add: paused_flag_def paused_machine_def scenario_eval)
  show "iteration (state paused_machine) = 1"
    by (simp add: paused_machine_def scenario_eval)
  show "history (state paused_machine) = [scenario_record 1]"
    by (simp add: paused_machine_def scenario_eval)
qed


lemma resume_step_cong:
  assumes "r_loopId o1 = r_loopId o2" "r_stateFile o1 = r_stateFile o2" "r_cd o1 = r_cd o2"
    and "r_jsonlEvents o1 = r_jsonlEvents o2"
    and "\<And>root. buildCodexOptions o1 root no_fallback = buildCodexOptions o2 root no_fallback"
    and "\<And>opts s. apply_overrides o1 opts s = apply_overrides o2 opts s"
  shows "resume_step e store o1 = resume_step e store o2"
  unfolding resume_step_def Let_def using assms by (simp split: sum.splits cong: option.case_cong if_cong)

lemma resume_empty_overrides:
  "resume_step e store (options\<lparr>r_maxIterations := Some 0\<rparr>)
     = resume_step e store (options\<lparr>r_maxIterations := None\<rparr>)"
  "resume_step e store (options\<lparr>r_completionPromise := Some []\<rparr>)
     = resume_step e store (options\<lparr>r_completionPromise := None\<rparr>)"
  "resume_step e store (options\<lparr>r_promiseMode := Some []\<rparr>)
     = resume_step e store (options\<lparr>r_promiseMode := None\<rparr>)"
  "resume_step e store (options\<lparr>r_model := Some []\<rparr>)
     = resume_step e store (options\<lparr>r_model := None\<rparr>)"
  "resume_step e store (options\<lparr>r_profile := Some []\<rparr>)
     = resume_step e store (options\<lparr>r_profile := None\<rparr>)"
  "resume_step e store (options\<lparr>r_sandbox := Some []\<rparr>)
     = resume_step e store (options\<lparr>r_sandbox := None\<rparr>)"
  "resume_step e store (options\<lparr>r_askForApproval := Some []\<rparr>)
     = resume_step e store (options\<lparr>r_askForApproval := None\<rparr>)"
  by (rule resume_step_cong;
      simp add: buildCodexOptions_def apply_overrides_def str_or_def truthy_str_def)+


lemma resume_machine_cong:
  assumes "r_loopId o1 = r_loopId o2" "r_stateFile o1 = r_stateFile o2" "r_cd o1 = r_cd o2"
    and "\<And>root s. apply_overrides o1 (buildCodexOptions o1 root no_fallback) s
                   = apply_overrides o2 (buildCodexOptions o2 root no_fallback) s"
  shows "map_sum id fst (resume_step e store o1) = map_sum id fst (resume_step e store o2)"
  unfolding resume_step_def Let_def using assms
  by (simp split: sum.splits cong: option.case_cong if_cong)

lemma resume_skip:
  "map_sum id fst (resume_step e store (options\<lparr>r_skipGitRepoCheck := b\<rparr>))
     = map_sum id fst (resume_step e store options)"
  by (rule resume_machine_cong) (simp_all add: apply_overrides_def buildCodexOptions_def)

section \<open>The claims\<close>




text \<open>
  C2, as amended. The resolved identifier is the first available of: the identifier found
  in the structured event lines of standard output followed by standard error; the first
  UUID-shaped substring of standard output; that of standard error; the identifier passed
  in, if truthy; otherwise \<^verbatim>\<open>null\<close>. Among the event lines, the first line that yields
  an identifier decides, and a line yields \<open>session_id\<close>, else the nested \<open>session.id\<close>,
  else \<open>id\<close> when \<open>type\<close> is \<open>session\<close>. The text strategy returns the leftmost
  substring of the shape 8-4-4-4-12 in the first line that has one. In particular, when the
  first identifier-carrying event line of the output has the non-empty \<open>session_id\<close> \<open>A\<close>,
  the resolved identifier is \<open>A\<close>, whatever bare UUID occurs elsewhere and whatever
  identifier was passed in.
\<close>

theorem C2_session_priority:
  "resolveSessionId P resume out err =
     (case parseSessionIdFromJsonLines P (out @ [LF] @ err) of
        Some j \<Rightarrow> j
      | None \<Rightarrow>
          (case parseSessionIdFromText out of
             Some u \<Rightarrow> JString u
           | None \<Rightarrow>
               (case parseSessionIdFromText err of
                  Some u \<Rightarrow> JString u
                | None \<Rightarrow> if truthy resume then resume else JNull)))
   \<and> (parseSessionIdFromJsonLines P text = None \<longleftrightarrow>
        (\<forall>l\<in>set (filter (\<lambda>l. l \<noteq> []) (split_lines text)). line_session_id P l = None))
   \<and> (filter (\<lambda>l. l \<noteq> []) (split_lines text) = before @ line # after
        \<and> (\<forall>l\<in>set before. line_session_id P l = None) \<and> line_session_id P line = Some j
        \<longrightarrow> parseSessionIdFromJsonLines P text = Some j)
   \<and> (get_prop ev ''session_id'' = JString A \<and> A \<noteq> [] \<longrightarrow> event_session_id ev = Some (JString A))
   \<and> (\<not> truthy (get_prop ev ''session_id'') \<and> get_prop ev ''session'' = JObject kvs
        \<and> get_prop (JObject kvs) ''id'' = JString A \<and> A \<noteq> []
        \<longrightarrow> event_session_id ev = Some (JString A))
   \<and> (\<not> truthy (get_prop ev ''session_id'') \<and> \<not> truthy (get_prop ev ''session'')
        \<and> get_prop ev ''id'' = JString A \<and> A \<noteq> [] \<and> get_prop ev ''type'' = JString ''session''
        \<longrightarrow> event_session_id ev = Some (JString A))
   \<and> (parseSessionIdFromText text = Some u \<longrightarrow>
        is_uuid u
        \<and> (\<exists>before' line' after' k. split_lines text = before' @ line' # after'
              \<and> (\<forall>l\<in>set before'. \<forall>i. \<not> uuid_at l i)
              \<and> uuid_at line' k \<and> u = take 36 (drop k line') \<and> (\<forall>i<k. \<not> uuid_at line' i)))
   \<and> (parseSessionIdFromText text = None \<longleftrightarrow>
        (\<forall>l\<in>set (split_lines text). \<forall>i. \<not> uuid_at l i))
   \<and> (filter (\<lambda>l. l \<noteq> []) (split_lines (out @ [LF] @ err)) = before @ line # after
        \<and> (\<forall>l\<in>set before. line_session_id P l = None)
        \<and> startsWith (trim line) ''{'' \<and> P line = Some ev
        \<and> get_prop ev ''session_id'' = JString A \<and> A \<noteq> []
        \<longrightarrow> resolveSessionId P resume out err = JString A)"
proof -
  have p2: "parseSessionIdFromJsonLines P text = None \<longleftrightarrow>
        (\<forall>l\<in>set (filter (\<lambda>l. l \<noteq> []) (split_lines text)). line_session_id P l = None)"
    unfolding parseSessionIdFromJsonLines_def by (rule scan_None)
  have p3: "filter (\<lambda>l. l \<noteq> []) (split_lines text) = before @ line # after
        \<and> (\<forall>l\<in>set before. line_session_id P l = None) \<and> line_session_id P line = Some j
        \<longrightarrow> parseSessionIdFromJsonLines P text = Some j"
    using scan_first [of before P line j after] by (simp add: parseSessionIdFromJsonLines_def)
  have p4: "get_prop ev ''session_id'' = JString A \<and> A \<noteq> [] \<longrightarrow> event_session_id ev = Some (JString A)"
    by (simp add: event_session_id_def)
  have p5: "\<not> truthy (get_prop ev ''session_id'') \<and> get_prop ev ''session'' = JObject kvs
        \<and> get_prop (JObject kvs) ''id'' = JString A \<and> A \<noteq> []
        \<longrightarrow> event_session_id ev = Some (JString A)"
    by (simp add: event_session_id_def)
  have p6: "\<not> truthy (get_prop ev ''session_id'') \<and> \<not> truthy (get_prop ev ''session'')
        \<and> get_prop ev ''id'' = JString A \<and> A \<noteq> [] \<and> get_prop ev ''type'' = JString ''session''
        \<longrightarrow> event_session_id ev = Some (JString A)"
    by (simp add: event_session_id_def)
  have p7: "is_uuid u
        \<and> (\<exists>before' line' after' k. split_lines text = before' @ line' # after'
              \<and> (\<forall>l\<in>set before'. \<forall>i. \<not> uuid_at l i)
              \<and> uuid_at line' k \<and> u = take 36 (drop k line') \<and> (\<forall>i<k. \<not> uuid_at line' i))"
    if "parseSessionIdFromText text = Some u"
  proof -
    from that first_uuid_line_Some obtain before' line' after' where
      d: "split_lines text = before' @ line' # after'" "\<forall>l\<in>set before'. match_uuid l = None"
         "match_uuid line' = Some u"
      unfolding parseSessionIdFromText_def by blast
    from match_uuid_Some [OF d(3)] obtain k where
      k: "uuid_at line' k" "u = take 36 (drop k line')" "\<forall>i<k. \<not> uuid_at line' i" by blast
    from k(1,2) have "is_uuid u" by (simp add: uuid_at_def)
    moreover from d(2) have "\<forall>l\<in>set before'. \<forall>i. \<not> uuid_at l i"
      by (simp add: match_uuid_None)
    ultimately show ?thesis using d(1) k by blast
  qed
  have p8: "parseSessionIdFromText text = None \<longleftrightarrow>
        (\<forall>l\<in>set (split_lines text). \<forall>i. \<not> uuid_at l i)"
    by (simp add: parseSessionIdFromText_def first_uuid_line_None match_uuid_None)
  have p9: "filter (\<lambda>l. l \<noteq> []) (split_lines (out @ [LF] @ err)) = before @ line # after
        \<and> (\<forall>l\<in>set before. line_session_id P l = None)
        \<and> startsWith (trim line) ''{'' \<and> P line = Some ev
        \<and> get_prop ev ''session_id'' = JString A \<and> A \<noteq> []
        \<longrightarrow> resolveSessionId P resume out err = JString A"
    using first_event_wins by blast
  from resolve_order [of P resume out err] p2 p3 p4 p5 p6 p7 p8 p9 show ?thesis
    by blast
qed

theorem C2_session_priority_witness:
  "filter (\<lambda>l. l \<noteq> []) (split_lines (out_one @ [LF] @ []))
      = [] @ event_line ''A'' # [''session: '' @ bare_uuid]
   \<and> startsWith (trim (event_line ''A'')) ''{''
   \<and> json_parse (event_line ''A'') = Some (JObject [(''session_id'', JString ''A'')])
   \<and> get_prop (JObject [(''session_id'', JString ''A'')]) ''session_id'' = JString ''A''
   \<and> ''A'' \<noteq> []
   \<and> parseSessionIdFromText out_one = Some bare_uuid
   \<and> resolveSessionId json_parse (JString ''passed-in'') out_one [] = JString ''A''"
proof -
  have h1: "filter (\<lambda>l. l \<noteq> []) (split_lines (out_one @ [LF] @ []))
      = [] @ event_line ''A'' # [''session: '' @ bare_uuid]"
    unfolding out_one_lines by (simp add: event_line_def)
  have h2: "\<forall>l\<in>set []. line_session_id json_parse l = None" by simp
  have h3: "startsWith (trim (event_line ''A'')) ''{''"
    by (simp add: event_line_def startsWith_def trim_def is_space_def)
  have h4: "get_prop (JObject [(''session_id'', JString ''A'')]) ''session_id'' = JString ''A''"
    by simp
  from C2_session_priority [of json_parse "JString ''passed-in''" out_one "[]" _ "[]"
      "event_line ''A''" "[''session: '' @ bare_uuid]" _ "JObject [(''session_id'', JString ''A'')]" "''A''"]
    h1 h2 h3 h4 event_line_parse(1)
  have "resolveSessionId json_parse (JString ''passed-in'') out_one [] = JString ''A''"
    by blast
  with h1 h3 h4 event_line_parse(1) out_uuid(1) show ?thesis by simp
qed

text \<open>
  C2 as stated fails when several events carry identifiers: the output below contains a
  parseable event with \<open>session_id\<close> \<open>A\<close> and a bare UUID, and resolves to \<open>C\<close>, the
  identifier of the first event line.
\<close>

theorem C2_session_priority_counterexample:
  "split_lines (out_two @ [LF] @ []) =
     [event_line ''C'', event_line ''A'', ''session: '' @ bare_uuid, []]
   \<and> json_parse (event_line ''A'') = Some (JObject [(''session_id'', JString ''A'')])
   \<and> parseSessionIdFromText out_two = Some bare_uuid
   \<and> resolveSessionId json_parse JNull out_two [] = JString ''C''
   \<and> resolveSessionId json_parse JNull out_two [] \<noteq> JString ''A''"
proof -
  have f: "filter (\<lambda>l. l \<noteq> []) (split_lines (out_two @ [LF] @ []))
      = [] @ event_line ''C'' # [event_line ''A'', ''session: '' @ bare_uuid]"
    unfolding out_two_lines by (simp add: event_line_def)
  have s: "startsWith (trim (event_line ''C'')) ''{''"
    by (simp add: event_line_def startsWith_def trim_def is_space_def)
  have b: "\<forall>l\<in>set []. line_session_id json_parse l = None" by simp
  have g: "get_prop (JObject [(''session_id'', JString ''C'')]) ''session_id'' = JString ''C''"
    "''C'' \<noteq> []" by simp_all
  have "resolveSessionId json_parse JNull out_two [] = JString ''C''"
    using first_event_wins [of out_two "[]" "[]" "event_line ''C''"
        "[event_line ''A'', ''session: '' @ bare_uuid]" json_parse
        "JObject [(''session_id'', JString ''C'')]" "''C''" JNull]
      f b s event_line_parse(2) g by blast
  with out_two_lines event_line_parse(1) out_uuid(2) show ?thesis by simp
qed

text \<open>
  C3. A run of the controller that starts from a state whose history length equals its
  iteration counter ends in a state that comes from the initial one by appending only: the
  old history is a prefix of the new one, the records after it are those of the iterations
  \<open>iteration + 1\<close> onwards, one each and in order, and the length of the history is the
  iteration counter. The same holds for every record the run writes to the state file.
  Pass by pass: a pass through the loop body that reaches the bookkeeping step sets
  \<open>iteration\<close> to the loop variable and appends exactly one record, numbered with it
  and carrying the detection result, behind the unchanged old history; a pass that does
  not reach it, and so every pass that ends in \<open>error_spawn\<close> or \<open>error_no_session\<close>,
  leaves \<open>iteration\<close> and \<open>history\<close> unchanged.
\<close>

theorem C3_history_append_only:
  assumes "length (history (state m)) = iteration (state m)"
  shows "appended_since (state m) (state (runLoop e a m))
     \<and> (\<exists>snaps. saved (trace (runLoop e a m)) = saved (trace m) @ snaps
           \<and> (\<forall>s\<in>set snaps. appended_since (state m) s))
     \<and> (\<forall>iter m0 m1 fl.
           loop_body e a iter m0 = (m1, fl) \<and> status (state m1) \<in> {error_spawn, error_no_session}
           \<longrightarrow> iteration (state m1) = iteration (state m0) \<and> history (state m1) = history (state m0))
     \<and> (\<forall>iter m0 m1 fl.
           reaches_bookkeeping e iter m0 \<and> loop_body e a iter m0 = (m1, fl)
           \<longrightarrow> iteration (state m1) = iter
               \<and> (\<exists>rec. history (state m1) = history (state m0) @ [rec]
                      \<and> h_iteration rec = iter
                      \<and> h_detected_promise rec = detects e a iter))
     \<and> (\<forall>iter m0 m1 fl.
           \<not> reaches_bookkeeping e iter m0 \<and> loop_body e a iter m0 = (m1, fl)
           \<longrightarrow> iteration (state m1) = iteration (state m0) \<and> history (state m1) = history (state m0))"
proof -
  have start: "appended_since (state m) (state (loop_entry e a m))"
    using assms by (simp add: appended_since_def)
  have "appended_since (state m) (state (loop_from e a (Suc (iteration (state m))) (loop_entry e a m)))
     \<and> (\<exists>snaps. saved (trace (loop_from e a (Suc (iteration (state m))) (loop_entry e a m)))
              = saved (trace (loop_entry e a m)) @ snaps
           \<and> (\<forall>s\<in>set snaps. appended_since (state m) s))"
    by (rule loop_append [OF start]) simp
  then have run: "appended_since (state m) (state (runLoop e a m))
     \<and> (\<exists>snaps. saved (trace (runLoop e a m)) = saved (trace m) @ snaps
           \<and> (\<forall>s\<in>set snaps. appended_since (state m) s))"
    by (simp add: runLoop_unfold)
  have err: "\<forall>iter m0 m1 fl.
           loop_body e a iter m0 = (m1, fl) \<and> status (state m1) \<in> {error_spawn, error_no_session}
           \<longrightarrow> iteration (state m1) = iteration (state m0) \<and> history (state m1) = history (state m0)"
    using body_error_unchanged by blast
  have reach: "\<forall>iter m0 m1 fl.
           reaches_bookkeeping e iter m0 \<and> loop_body e a iter m0 = (m1, fl)
           \<longrightarrow> iteration (state m1) = iter
               \<and> (\<exists>rec. history (state m1) = history (state m0) @ [rec]
                      \<and> h_iteration rec = iter
                      \<and> h_detected_promise rec = detects e a iter)"
    using body_record(1,3) by blast
  have unreach: "\<forall>iter m0 m1 fl.
           \<not> reaches_bookkeeping e iter m0 \<and> loop_body e a iter m0 = (m1, fl)
           \<longrightarrow> iteration (state m1) = iteration (state m0) \<and> history (state m1) = history (state m0)"
    using body_unreached by blast
  from run err reach unreach show ?thesis by blast
qed

theorem C3_history_append_only_witness:
  "length (history (state paused_machine)) = iteration (state paused_machine)
   \<and> reaches_bookkeeping tie_env 2 paused_machine
   \<and> iteration (state (fst (loop_body tie_env checklist_args 2 paused_machine))) = 2
   \<and> butlast (history (state (fst (loop_body tie_env checklist_args 2 paused_machine))))
        = [scenario_record 1]
   \<and> h_iteration (last (history (state (fst (loop_body tie_env checklist_args 2 paused_machine))))) = 2
   \<and> h_detected_promise (last (history (state (fst (loop_body tie_env checklist_args 2 paused_machine)))))
   \<and> length (history (state (runLoop tie_env checklist_args paused_machine)))
       = iteration (state (runLoop tie_env checklist_args paused_machine))"
proof -
  have h: "length (history (state paused_machine)) = iteration (state paused_machine)"
    using paused_tie(6,7) by simp
  note inst = C3_history_append_only [OF h, of tie_env checklist_args]
  have body: "loop_body tie_env checklist_args 2 paused_machine
      = (fst (loop_body tie_env checklist_args 2 paused_machine),
         snd (loop_body tie_env checklist_args 2 paused_machine))" by simp
  from inst paused_tie(1) body
  have "iteration (state (fst (loop_body tie_env checklist_args 2 paused_machine))) = 2
      \<and> (\<exists>rec. history (state (fst (loop_body tie_env checklist_args 2 paused_machine)))
               = history (state paused_machine) @ [rec]
             \<and> h_iteration rec = 2
             \<and> h_detected_promise rec = detects tie_env checklist_args 2)"
    by blast
  moreover from inst have "length (history (state (runLoop tie_env checklist_args paused_machine)))
       = iteration (state (runLoop tie_env checklist_args paused_machine))"
    by (simp add: appended_since_def)
  ultimately show ?thesis using h paused_tie(1,2,7) by auto
qed

text \<open>
  C4. When the child of an iteration emits \<open>error\<close> before it closes, the loop entered at
  that iteration ends with status \<open>error_spawn\<close>; \<open>iteration\<close> and \<open>history\<close> are those
  from before the attempt; the final state is the one record written to the state file by
  the iteration; and the only child spawned is the one that failed: there is no retry and
  no further iteration.
\<close>

theorem C4_spawn_failure:
  assumes "iter \<le> maxIterations a" "\<not> sigintReceived e iter" "child e iter = ChildError message"
  shows "status (state (loop_from e a iter m)) = error_spawn
     \<and> iteration (state (loop_from e a iter m)) = iteration (state m)
     \<and> history (state (loop_from e a iter m)) = history (state m)
     \<and> saved (trace (loop_from e a iter m)) = saved (trace m) @ [state (loop_from e a iter m)]
     \<and> spawned (trace (loop_from e a iter m)) = spawned (trace m) @ [iter]"
proof -
  from spawn_failed_body [OF assms(2,3)] obtain m' where
    b: "loop_body e a iter m = (m', Return)" and
    r: "status (state m') = error_spawn" "iteration (state m') = iteration (state m)"
       "history (state m') = history (state m)"
       "saved (trace m') = saved (trace m) @ [state m']"
       "spawned (trace m') = spawned (trace m) @ [iter]"
    by blast
  from loop_from_stop [OF assms(1) b] have "loop_from e a iter m = m'" by simp
  with r show ?thesis by simp
qed

theorem C4_spawn_failure_witness:
  "1 \<le> maxIterations plain_args
   \<and> \<not> sigintReceived enoent_env 1
   \<and> child enoent_env 1 = ChildError ''spawn codex ENOENT''
   \<and> status (state (loop_from enoent_env plain_args 1 fresh_machine)) = error_spawn
   \<and> iteration (state (loop_from enoent_env plain_args 1 fresh_machine)) = 0
   \<and> spawned (trace (loop_from enoent_env plain_args 1 fresh_machine)) = [1]"
proof -
  have h1: "1 \<le> maxIterations plain_args"
    by (simp add: scenario_names scenario_eval)
  have h2: "\<not> sigintReceived enoent_env 1"
    by (simp add: scenario_names scenario_eval)
  have h3: "child enoent_env 1 = ChildError ''spawn codex ENOENT''"
    by (simp add: scenario_names scenario_eval)
  have start: "iteration (state fresh_machine) = 0" "trace fresh_machine = []"
    by (simp_all add: scenario_names scenario_eval)
  from C4_spawn_failure [OF h1 h2 h3, of fresh_machine] h1 h2 h3 start
  show ?thesis by simp
qed

text \<open>
  C5, as amended. In \<open>regex\<close> mode, for every non-empty message and every token, whatever
  the pattern constructor does: when the token does not compile, the result is false and one
  diagnostic line carrying the error's message is written; when it compiles, the result is
  whether the pattern matches the message, and nothing is written. The detector returns in
  both cases. For an empty or absent message the result is false and the token is not
  compiled. With the fragment model of the constructor: the pattern \<open>DONE-\<close>, backslash,
  \<open>d+\<close> matches \<open>DONE-123\<close> and does not match \<open>DONE\<close>, and the token \<open>[invalid\<close> yields
  false for every message.
\<close>

theorem C5_regex_mode:
  "(message \<noteq> [] \<longrightarrow>
      detectCompletion R (Some message) ''regex'' token =
        (case R token of
           Inl err \<Rightarrow> (False, [''Invalid completion regex: '' @ err])
         | Inr re \<Rightarrow> (re message, [])))
   \<and> detectCompletion R (Some []) ''regex'' token = (False, [])
   \<and> detectCompletion R None ''regex'' token = (False, [])
   \<and> fst (detectCompletion regexp_fragment (Some ''DONE-123'') ''regex'' done_digits)
   \<and> \<not> fst (detectCompletion regexp_fragment (Some ''DONE'') ''regex'' done_digits)
   \<and> \<not> fst (detectCompletion regexp_fragment any_message ''regex'' ''[invalid'')"
proof -
  have general: "message \<noteq> [] \<longrightarrow>
      detectCompletion R (Some message) ''regex'' token =
        (case R token of
           Inl err \<Rightarrow> (False, [''Invalid completion regex: '' @ err])
         | Inr re \<Rightarrow> (re message, []))"
    by (simp add: detectCompletion_def split: sum.splits)
  have empty: "detectCompletion R (Some []) ''regex'' token = (False, [])"
    "detectCompletion R None ''regex'' token = (False, [])"
    by (simp_all add: detectCompletion_def)
  have yes: "fst (detectCompletion regexp_fragment (Some ''DONE-123'') ''regex'' done_digits)"
    by (simp add: detectCompletion_def regexp_eval)
  have no: "\<not> fst (detectCompletion regexp_fragment (Some ''DONE'') ''regex'' done_digits)"
    by (simp add: detectCompletion_def regexp_eval)
  have bad: "regexp_fragment ''[invalid'' = Inl ''Invalid regular expression: /[invalid/''"
    by (simp add: regexp_eval)
  have invalid: "\<not> fst (detectCompletion regexp_fragment any_message ''regex'' ''[invalid'')"
    by (simp add: detectCompletion_def bad split: option.splits)
  from general empty yes no invalid show ?thesis by blast
qed

theorem C5_regex_mode_witness:
  "''test'' \<noteq> []
   \<and> detectCompletion regexp_fragment (Some ''test'') ''regex'' ''[invalid''
       = (False, [''Invalid completion regex: Invalid regular expression: /[invalid/''])"
proof -
  have bad: "regexp_fragment ''[invalid'' = Inl ''Invalid regular expression: /[invalid/''"
    by (simp add: regexp_eval)
  from C5_regex_mode [of "''test''" regexp_fragment "''[invalid''"] bad
  show ?thesis by simp
qed

text \<open>
  C5 as stated fails for the empty message: the pattern \<open>a*\<close> compiles and matches the
  empty message, yet detection is false; and for the token \<open>[invalid\<close>, which does not
  compile, no diagnostic is written.
\<close>

theorem C5_regex_mode_counterexample:
  "\<not> isl (regexp_fragment ''a*'')
   \<and> projr (regexp_fragment ''a*'') []
   \<and> detectCompletion regexp_fragment (Some []) ''regex'' ''a*'' = (False, [])
   \<and> regexp_fragment ''[invalid'' = Inl ''Invalid regular expression: /[invalid/''
   \<and> detectCompletion regexp_fragment (Some []) ''regex'' ''[invalid'' = (False, [])"
  by (simp add: detectCompletion_def regexp_eval)

text \<open>
  C6. Whatever the mode and the token, completion detection is false for an absent and for
  an empty message. A final-message file that does not exist (or no path at all) is read as
  the empty text. So in an iteration whose final-message file is missing nothing is
  detected: the iteration does not make the status \<open>completed\<close>, and when it reaches the
  bookkeeping step, the record it appends to the history has no detected promise.
\<close>

theorem C6_empty_message_never_completes:
  "\<not> fst (detectCompletion R None mode token)
   \<and> \<not> fst (detectCompletion R (Some []) mode token)
   \<and> readFileSafe fs None = []
   \<and> (fs p = None \<longrightarrow> readFileSafe fs (Some p) = [])
   \<and> (files e iter (lastMessagePathOf e a iter) = None \<longrightarrow>
        final_message e a iter = []
        \<and> \<not> detects e a iter
        \<and> (status (state m) \<noteq> completed \<longrightarrow> status (state (fst (loop_body e a iter m))) \<noteq> completed)
        \<and> (reaches_bookkeeping e iter m \<longrightarrow>
             status (state (fst (loop_body e a iter m))) \<noteq> completed
             \<and> \<not> h_detected_promise (last (history (state (fst (loop_body e a iter m)))))))"
proof -
  have a: "\<not> fst (detectCompletion R None mode token)"
    "\<not> fst (detectCompletion R (Some []) mode token)"
    by (simp_all add: detectCompletion_def)
  have b: "readFileSafe fs None = []" "fs p = None \<longrightarrow> readFileSafe fs (Some p) = []"
    by (simp_all add: readFileSafe_def)
  have c: "final_message e a iter = [] \<and> \<not> detects e a iter
        \<and> (status (state m) \<noteq> completed \<longrightarrow> status (state (fst (loop_body e a iter m))) \<noteq> completed)
        \<and> (reaches_bookkeeping e iter m \<longrightarrow>
             status (state (fst (loop_body e a iter m))) \<noteq> completed
             \<and> \<not> h_detected_promise (last (history (state (fst (loop_body e a iter m))))))"
    if missing: "files e iter (lastMessagePathOf e a iter) = None"
  proof -
    from missing have empty: "final_message e a iter = []"
      by (simp add: final_message_def readFileSafe_def)
    then have nd: "\<not> detects e a iter"
      by (simp add: detects_def detectCompletion_def)
    obtain m' fl where body: "loop_body e a iter m = (m', fl)"
      by (cases "loop_body e a iter m")
    have reached: "status (state m') \<noteq> completed \<and> \<not> h_detected_promise (last (history (state m')))"
      if "reaches_bookkeeping e iter m"
      using body_record(1,2) [OF that body] nd by auto
    have other: "status (state m') \<noteq> completed"
      if "\<not> reaches_bookkeeping e iter m" "status (state m) \<noteq> completed"
      using body_not_reached [OF that(1), of a] that(2) body by auto
    from empty nd reached other body show ?thesis by auto
  qed
  from a b c show ?thesis by blast
qed

theorem C6_empty_message_never_completes_witness:
  "files missing_env 1 (lastMessagePathOf missing_env plain_args 1) = None
   \<and> reaches_bookkeeping missing_env 1 fresh_machine
   \<and> status (state fresh_machine) \<noteq> completed
   \<and> \<not> detects missing_env plain_args 1
   \<and> status (state (fst (loop_body missing_env plain_args 1 fresh_machine))) \<noteq> completed"
proof -
  have h1: "files missing_env 1 (lastMessagePathOf missing_env plain_args 1) = None"
    by (simp add: lastMessagePathOf_def scenario_names scenario_eval)
  have h2: "reaches_bookkeeping missing_env 1 fresh_machine"
    by (rule child_ok_reaches) (simp_all add: missing_env_def scenario_env_def)
  have h3: "status (state fresh_machine) \<noteq> completed"
    by (simp add: scenario_names scenario_eval)
  from C6_empty_message_never_completes [of _ _ _ "files missing_env 1" _ missing_env 1 plain_args fresh_machine]
    h1 h2 h3
  show ?thesis by simp
qed

text \<open>
  C7, as amended. A run that starts below the cap (\<open>iteration < max_iterations\<close>), in which
  every iteration up to the cap is quiet (no interrupt pending, the child closes, the final
  message does not match, no sentinel fires) and a session identifier is known or reported
  by the first child, spawns exactly the iterations \<open>iteration + 1\<close> to \<open>max_iterations\<close>
  and ends with status \<open>stopped_max_iterations\<close> and \<open>iteration = max_iterations\<close>.
\<close>

theorem C7_exhaustion:
  assumes "iteration (state m) < maxIterations a"
    and "\<forall>i. iteration (state m) < i \<and> i \<le> maxIterations a \<longrightarrow> quiet e a i"
    and "truthy (session_id (codex (state m))) \<or> reports_session e (Suc (iteration (state m)))"
  shows "status (state (runLoop e a m)) = stopped_max_iterations
     \<and> iteration (state (runLoop e a m)) = maxIterations a
     \<and> spawned (trace (runLoop e a m))
         = spawned (trace m) @ [Suc (iteration (state m)) ..< Suc (maxIterations a)]"
proof -
  have le: "Suc (iteration (state m)) \<le> maxIterations a" using assms(1) by simp
  have q: "\<forall>i. Suc (iteration (state m)) \<le> i \<and> i \<le> maxIterations a \<longrightarrow> quiet e a i"
    using assms(2) by simp
  have s: "truthy (session_id (codex (state (loop_entry e a m))))
      \<or> reports_session e (Suc (iteration (state m)))"
    using assms(3) by simp
  from loop_exhaust [OF le q s] show ?thesis
    by (simp add: runLoop_unfold)
qed

theorem C7_exhaustion_witness:
  "iteration (state fresh_machine) < maxIterations plain_args
   \<and> quiet quiet_env plain_args 1 \<and> quiet quiet_env plain_args 2 \<and> quiet quiet_env plain_args 3
   \<and> reports_session quiet_env 1
   \<and> maxIterations plain_args = 3
   \<and> status (state (runLoop quiet_env plain_args fresh_machine)) = stopped_max_iterations
   \<and> iteration (state (runLoop quiet_env plain_args fresh_machine)) = 3
   \<and> spawned (trace (runLoop quiet_env plain_args fresh_machine)) = [1, 2, 3]"
proof -
  have h1: "iteration (state fresh_machine) < maxIterations plain_args"
    by (simp add: scenario_names scenario_eval)
  have h2: "\<forall>i. iteration (state fresh_machine) < i \<and> i \<le> maxIterations plain_args
              \<longrightarrow> quiet quiet_env plain_args i"
    by (simp add: scenario_quiet)
  have rep: "reports_session quiet_env 1"
    by (simp add: reports_session_def quiet_env_def scenario_env_def child_ok_def child_ok_session)
  have h3: "truthy (session_id (codex (state fresh_machine)))
      \<or> reports_session quiet_env (Suc (iteration (state fresh_machine)))"
    using rep by (simp add: scenario_names scenario_eval)
  have cap: "maxIterations plain_args = 3" "iteration (state fresh_machine) = 0"
    "trace fresh_machine = []"
    by (simp_all add: scenario_names scenario_eval)
  have upt: "[Suc 0 ..< Suc 3] = [1, 2, 3]" by (simp add: upt_rec)
  from C7_exhaustion [OF h1 h2 h3] h1 rep cap upt scenario_quiet
  show ?thesis by simp
qed

text \<open>
  C7 as stated fails without these conditions. With cap 3, no matching final message and no
  sentinel in iterations 1 to 3: a run resumed from a record that an interrupt paused after
  iteration 3 spawns nothing and keeps the status \<open>paused_user_interrupt\<close>; and a run
  whose first child cannot be spawned ends with \<open>error_spawn\<close> at iteration 0.
\<close>

theorem C7_exhaustion_counterexample:
  "\<not> detects quiet_env plain_args 1 \<and> \<not> detects quiet_env plain_args 2
   \<and> \<not> detects quiet_env plain_args 3
   \<and> \<not> sentinel_present quiet_env plain_args 1 \<and> \<not> sentinel_present quiet_env plain_args 2
   \<and> \<not> sentinel_present quiet_env plain_args 3
   \<and> maxIterations plain_args = 3
   \<and> status (state (runLoop quiet_env plain_args capped_machine)) = paused_user_interrupt
   \<and> spawned (trace (runLoop quiet_env plain_args capped_machine)) = []
   \<and> \<not> detects enoent_env plain_args 1 \<and> \<not> detects enoent_env plain_args 2
   \<and> \<not> detects enoent_env plain_args 3
   \<and> \<not> sentinel_present enoent_env plain_args 1 \<and> \<not> sentinel_present enoent_env plain_args 2
   \<and> \<not> sentinel_present enoent_env plain_args 3
   \<and> status (state (runLoop enoent_env plain_args fresh_machine)) = error_spawn
   \<and> iteration (state (runLoop enoent_env plain_args fresh_machine)) = 0"
proof -
  have cap: "maxIterations plain_args = 3" by (simp add: scenario_names scenario_eval)
  have it: "iteration (state capped_machine) = 3" "status (state capped_machine) = paused_user_interrupt"
    "trace capped_machine = []"
    by (simp_all add: scenario_names scenario_eval)
  have "runLoop quiet_env plain_args capped_machine = loop_entry quiet_env plain_args capped_machine"
    unfolding runLoop_unfold using cap it(1) by (simp add: loop_from_done)
  then have capped: "status (state (runLoop quiet_env plain_args capped_machine)) = paused_user_interrupt"
    "spawned (trace (runLoop quiet_env plain_args capped_machine)) = []"
    using it by simp_all
  have h1: "Suc (iteration (state fresh_machine)) \<le> maxIterations plain_args"
    by (simp add: scenario_names scenario_eval)
  have h2: "\<not> sigintReceived enoent_env (Suc (iteration (state fresh_machine)))"
    by (simp add: scenario_names scenario_eval)
  have h3: "child enoent_env (Suc (iteration (state fresh_machine))) = ChildError ''spawn codex ENOENT''"
    by (simp add: scenario_names scenario_eval)
  have fresh: "iteration (state fresh_machine) = 0"
    by (simp add: scenario_names scenario_eval)
  from spawn_failed_body [OF h2 h3, of plain_args "loop_entry enoent_env plain_args fresh_machine"]
  obtain m' where
    m': "loop_body enoent_env plain_args (Suc (iteration (state fresh_machine)))
           (loop_entry enoent_env plain_args fresh_machine) = (m', Return)"
      "status (state m') = error_spawn"
      "iteration (state m') = iteration (state (loop_entry enoent_env plain_args fresh_machine))"
    by blast
  from loop_from_stop [OF h1 m'(1)] m'(2,3) fresh
  have failed: "status (state (runLoop enoent_env plain_args fresh_machine)) = error_spawn"
    "iteration (state (runLoop enoent_env plain_args fresh_machine)) = 0"
    by (simp_all add: runLoop_unfold)
  from cap capped failed scenario_no_match show ?thesis by simp
qed



text \<open>
  C9, as amended. When the resume step succeeds on a stored record \<open>s\<close>, exactly one
  record is written to the state file, the one the run then starts from. In it every
  override that was given with a non-empty value is in place: a positive
  \<open>max_iterations\<close>, a non-empty \<open>completion_promise\<close> and \<open>promise_mode\<close>, the flag
  \<open>same_prompt_each_iteration\<close>, and a non-empty model, profile, sandbox and approval
  policy; the same values are passed to the loop. The full-auto flag shows in the record as
  the sandbox \<open>workspace-write\<close> and the approval policy \<open>on-request\<close> where none is
  given, and is passed to the loop. The flag that skips the repository check is passed to
  the loop and has no place in the record: the record is the same whatever the flag. An
  override given as the empty string, or as 0, has the effect of one that is not given, and
  \<open>max_iterations\<close>, \<open>completion_promise\<close>, \<open>promise_mode\<close> and
  \<open>same_prompt_each_iteration\<close> keep their stored values when not given. \<open>loop_id\<close>,
  \<open>prompt\<close>, the session identifier, the history and \<open>iteration\<close> are those of \<open>s\<close>,
  and the children of the resumed run are numbered consecutively from \<open>iteration s + 1\<close>.
\<close>

theorem C9_resume_overrides:
  assumes "resume_step e store options = Inr (m, a)"
  shows "\<exists>s. store (statePath a) = Some s
     \<and> saved (trace m) = [state m]
     \<and> (\<forall>n. r_maxIterations options = Some n \<and> n \<noteq> 0 \<longrightarrow>
            max_iterations (state m) = n \<and> maxIterations a = n)
     \<and> (\<forall>c. r_completionPromise options = Some c \<and> c \<noteq> [] \<longrightarrow>
            completion_promise (state m) = c \<and> completionPromise a = c)
     \<and> (\<forall>pm. r_promiseMode options = Some pm \<and> pm \<noteq> [] \<longrightarrow>
            promise_mode (state m) = pm \<and> promiseMode a = pm)
     \<and> (\<forall>b. r_samePromptEachIteration options = Some b \<longrightarrow>
            same_prompt_each_iteration (state m) = b \<and> samePromptEachIteration a = b)
     \<and> (\<forall>x. r_model options = Some x \<and> x \<noteq> [] \<longrightarrow>
            model (codex (state m)) = Some x \<and> o_model (codexOptions a) = Some x)
     \<and> (\<forall>x. r_profile options = Some x \<and> x \<noteq> [] \<longrightarrow>
            profile (codex (state m)) = Some x \<and> o_profile (codexOptions a) = Some x)
     \<and> (\<forall>x. r_sandbox options = Some x \<and> x \<noteq> [] \<longrightarrow>
            sandbox (codex (state m)) = Some x \<and> o_sandbox (codexOptions a) = Some x)
     \<and> (\<forall>x. r_askForApproval options = Some x \<and> x \<noteq> [] \<longrightarrow>
            approval (codex (state m)) = Some x \<and> o_askForApproval (codexOptions a) = Some x)
     \<and> loop_id (state m) = loop_id s
     \<and> prompt (state m) = prompt s
     \<and> session_id (codex (state m)) = session_id (codex s)
     \<and> history (state m) = history s
     \<and> iteration (state m) = iteration s
     \<and> handleResume e store options = Inr (runLoop e a m)
     \<and> (\<exists>k. spawned (trace (runLoop e a m)) = [Suc (iteration s) ..< Suc (iteration s) + k])
     \<and> (r_maxIterations options = None \<or> r_maxIterations options = Some 0 \<longrightarrow>
            max_iterations (state m) = max_iterations s)
     \<and> (r_completionPromise options = None \<or> r_completionPromise options = Some [] \<longrightarrow>
            completion_promise (state m) = completion_promise s)
     \<and> (r_promiseMode options = None \<or> r_promiseMode options = Some [] \<longrightarrow>
            promise_mode (state m) = promise_mode s)
     \<and> (r_samePromptEachIteration options = None \<longrightarrow>
            same_prompt_each_iteration (state m) = same_prompt_each_iteration s)
     \<and> o_fullAuto (codexOptions a) = r_fullAuto options
     \<and> o_skipGitRepoCheck (codexOptions a) = r_skipGitRepoCheck options
     \<and> (r_fullAuto options \<and> (r_sandbox options = None \<or> r_sandbox options = Some []) \<longrightarrow>
            sandbox (codex (state m)) = Some ''workspace-write'')
     \<and> (r_fullAuto options
            \<and> (r_askForApproval options = None \<or> r_askForApproval options = Some []) \<longrightarrow>
            approval (codex (state m)) = Some ''on-request'')
     \<and> (\<forall>b. map_sum id fst (resume_step e store (options\<lparr>r_skipGitRepoCheck := b\<rparr>))
              = Inr m)
     \<and> resume_step e store (options\<lparr>r_maxIterations := Some 0\<rparr>)
           = resume_step e store (options\<lparr>r_maxIterations := None\<rparr>)
     \<and> resume_step e store (options\<lparr>r_completionPromise := Some []\<rparr>)
           = resume_step e store (options\<lparr>r_completionPromise := None\<rparr>)
     \<and> resume_step e store (options\<lparr>r_promiseMode := Some []\<rparr>)
           = resume_step e store (options\<lparr>r_promiseMode := None\<rparr>)
     \<and> resume_step e store (options\<lparr>r_model := Some []\<rparr>)
           = resume_step e store (options\<lparr>r_model := None\<rparr>)
     \<and> resume_step e store (options\<lparr>r_profile := Some []\<rparr>)
           = resume_step e store (options\<lparr>r_profile := None\<rparr>)
     \<and> resume_step e store (options\<lparr>r_sandbox := Some []\<rparr>)
           = resume_step e store (options\<lparr>r_sandbox := None\<rparr>)
     \<and> resume_step e store (options\<lparr>r_askForApproval := Some []\<rparr>)
           = resume_step e store (options\<lparr>r_askForApproval := None\<rparr>)"
proof -
  from resume_step_Inr [OF assms] obtain s opts where
    s: "store (statePath a) = Some s"
    and m: "m = saveState e (statePath a) \<lparr> state = apply_overrides options opts s, clock = 0, trace = [] \<rparr>"
    and opts: "opts = buildCodexOptions options (workspaceRoot a) no_fallback"
      "codexOptions a = opts"
    and args: "completionPromise a = completion_promise (state m)"
      "promiseMode a = promise_mode (state m)"
      "maxIterations a = max_iterations (state m)"
      "samePromptEachIteration a = same_prompt_each_iteration (state m)"
    by blast
  have st: "state m = (apply_overrides options opts s)\<lparr>updated_at := nowIso e 0\<rparr>"
    and tr: "trace m = [StateSaved (statePath a) (state m)]"
    unfolding m by (simp_all add: saveState_fields)
  have sv: "saved (trace m) = [state m]" unfolding tr by simp
  have frame: "loop_id (state m) = loop_id s" "prompt (state m) = prompt s"
    "session_id (codex (state m)) = session_id (codex s)" "history (state m) = history s"
    "iteration (state m) = iteration s"
    unfolding st by (simp_all add: apply_overrides_frame)
  have v1: "\<forall>n. r_maxIterations options = Some n \<and> n \<noteq> 0 \<longrightarrow>
            max_iterations (state m) = n \<and> maxIterations a = n"
    unfolding args unfolding st by (simp add: apply_overrides_values)
  have v2: "\<forall>c. r_completionPromise options = Some c \<and> c \<noteq> [] \<longrightarrow>
            completion_promise (state m) = c \<and> completionPromise a = c"
    unfolding args unfolding st by (simp add: apply_overrides_values)
  have v3: "\<forall>pm. r_promiseMode options = Some pm \<and> pm \<noteq> [] \<longrightarrow>
            promise_mode (state m) = pm \<and> promiseMode a = pm"
    unfolding args unfolding st by (simp add: apply_overrides_values)
  have v4: "\<forall>b. r_samePromptEachIteration options = Some b \<longrightarrow>
            same_prompt_each_iteration (state m) = b \<and> samePromptEachIteration a = b"
    unfolding args unfolding st by (simp add: apply_overrides_values)
  have v5: "\<forall>x. r_model options = Some x \<and> x \<noteq> [] \<longrightarrow>
            model (codex (state m)) = Some x \<and> o_model (codexOptions a) = Some x"
    unfolding st opts by (simp add: apply_overrides_values buildCodexOptions_values)
  have v6: "\<forall>x. r_profile options = Some x \<and> x \<noteq> [] \<longrightarrow>
            profile (codex (state m)) = Some x \<and> o_profile (codexOptions a) = Some x"
    unfolding st opts by (simp add: apply_overrides_values buildCodexOptions_values)
  have v7: "\<forall>x. r_sandbox options = Some x \<and> x \<noteq> [] \<longrightarrow>
            sandbox (codex (state m)) = Some x \<and> o_sandbox (codexOptions a) = Some x"
    unfolding st opts by (simp add: apply_overrides_values buildCodexOptions_values)
  have v8: "\<forall>x. r_askForApproval options = Some x \<and> x \<noteq> [] \<longrightarrow>
            approval (codex (state m)) = Some x \<and> o_askForApproval (codexOptions a) = Some x"
    unfolding st opts by (simp add: apply_overrides_values buildCodexOptions_values)
  have run: "handleResume e store options = Inr (runLoop e a m)"
    using assms by (simp add: handleResume_def)
  from loop_spawned [of e a "Suc (iteration (state m))" "loop_entry e a m"] obtain k where
    "spawned (trace (loop_from e a (Suc (iteration (state m))) (loop_entry e a m)))
       = spawned (trace (loop_entry e a m)) @ [Suc (iteration (state m)) ..< Suc (iteration (state m)) + k]"
    by blast
  then have "spawned (trace (runLoop e a m)) = [Suc (iteration s) ..< Suc (iteration s) + k]"
    unfolding runLoop_unfold using frame(5) tr by simp
  then have num: "\<exists>k. spawned (trace (runLoop e a m)) = [Suc (iteration s) ..< Suc (iteration s) + k]"
    by blast
  have u1: "r_maxIterations options = None \<or> r_maxIterations options = Some 0 \<longrightarrow>
            max_iterations (state m) = max_iterations s"
    unfolding st by (auto simp: apply_overrides_def Let_def split: option.splits)
  have u2: "r_completionPromise options = None \<or> r_completionPromise options = Some [] \<longrightarrow>
            completion_promise (state m) = completion_promise s"
    unfolding st by (auto simp: apply_overrides_def Let_def split: option.splits)
  have u3: "r_promiseMode options = None \<or> r_promiseMode options = Some [] \<longrightarrow>
            promise_mode (state m) = promise_mode s"
    unfolding st by (auto simp: apply_overrides_def Let_def split: option.splits)
  have u4: "r_samePromptEachIteration options = None \<longrightarrow>
            same_prompt_each_iteration (state m) = same_prompt_each_iteration s"
    unfolding st by (auto simp: apply_overrides_def Let_def split: option.splits)
  have f1: "o_fullAuto (codexOptions a) = r_fullAuto options"
    "o_skipGitRepoCheck (codexOptions a) = r_skipGitRepoCheck options"
    unfolding opts by (simp_all add: buildCodexOptions_def Let_def)
  have f2: "r_fullAuto options \<and> (r_sandbox options = None \<or> r_sandbox options = Some []) \<longrightarrow>
            sandbox (codex (state m)) = Some ''workspace-write''"
    unfolding st opts
    by (auto simp: apply_overrides_values buildCodexOptions_def str_or_def truthy_str_def Let_def)
  have f3: "r_fullAuto options
            \<and> (r_askForApproval options = None \<or> r_askForApproval options = Some []) \<longrightarrow>
            approval (codex (state m)) = Some ''on-request''"
    unfolding st opts
    by (auto simp: apply_overrides_values buildCodexOptions_def str_or_def truthy_str_def Let_def)
  have sk: "\<forall>b. map_sum id fst (resume_step e store (options\<lparr>r_skipGitRepoCheck := b\<rparr>))
              = Inr m"
    using assms by (simp add: resume_skip)
  note eqs = resume_empty_overrides [of e store options]
  show ?thesis
    by (rule exI [of _ s], intro conjI)
       (fact s sv v1 v2 v3 v4 v5 v6 v7 v8 frame run num u1 u2 u3 u4 f1 f2 f3 sk eqs)+
qed

theorem C9_resume_overrides_witness:
  "\<not> isl (resume_step quiet_env demo_store override_options)
   \<and> demo_store (statePath (snd (projr (resume_step quiet_env demo_store override_options))))
        = Some stored_record
   \<and> max_iterations (state (fst (projr (resume_step quiet_env demo_store override_options)))) = 15
   \<and> completion_promise (state (fst (projr (resume_step quiet_env demo_store override_options))))
        = ''FINISHED''
   \<and> promise_mode (state (fst (projr (resume_step quiet_env demo_store override_options)))) = ''plain''
   \<and> same_prompt_each_iteration (state (fst (projr (resume_step quiet_env demo_store override_options))))
   \<and> model (codex (state (fst (projr (resume_step quiet_env demo_store override_options))))) = Some ''o3''
   \<and> loop_id (state (fst (projr (resume_step quiet_env demo_store override_options))))
        = loop_id stored_record
   \<and> history (state (fst (projr (resume_step quiet_env demo_store override_options))))
        = history stored_record
   \<and> session_id (codex (state (fst (projr (resume_step quiet_env demo_store override_options)))))
        = JString ''old-session''
   \<and> iteration (state (fst (projr (resume_step quiet_env demo_store override_options)))) = 2"
proof -
  from override_resume obtain m a where
    eq: "resume_step quiet_env demo_store override_options = Inr (m, a)" by blast
  have path: "statePath a = ''/w/.codex/waylon-smithers/loops/demo.json''"
    using eq by (auto simp: resume_eval Let_def)
  have stored: "demo_store (statePath a) = Some stored_record"
    unfolding path by (simp add: demo_store_def)
  have o: "r_maxIterations override_options = Some 15"
    "r_completionPromise override_options = Some ''FINISHED''"
    "r_promiseMode override_options = Some ''plain''"
    "r_samePromptEachIteration override_options = Some True"
    "r_model override_options = Some ''o3''"
    by (simp_all add: override_options_def no_options_def)
  have rec: "session_id (codex stored_record) = JString ''old-session''" "iteration stored_record = 2"
    by (simp_all add: stored_record_def scenario_state_def)
  from C9_resume_overrides [OF eq]
  have "max_iterations (state m) = 15 \<and> completion_promise (state m) = ''FINISHED''
        \<and> promise_mode (state m) = ''plain'' \<and> same_prompt_each_iteration (state m)
        \<and> model (codex (state m)) = Some ''o3''
        \<and> loop_id (state m) = loop_id stored_record
        \<and> history (state m) = history stored_record
        \<and> session_id (codex (state m)) = JString ''old-session''
        \<and> iteration (state m) = 2"
  proof (elim exE conjE)
    fix s
    assume s: "demo_store (statePath a) = Some s"
      and v1: "\<forall>n. r_maxIterations override_options = Some n \<and> n \<noteq> 0 \<longrightarrow>
            max_iterations (state m) = n \<and> maxIterations a = n"
      and v2: "\<forall>c. r_completionPromise override_options = Some c \<and> c \<noteq> [] \<longrightarrow>
            completion_promise (state m) = c \<and> completionPromise a = c"
      and v3: "\<forall>pm. r_promiseMode override_options = Some pm \<and> pm \<noteq> [] \<longrightarrow>
            promise_mode (state m) = pm \<and> promiseMode a = pm"
      and v4: "\<forall>b. r_samePromptEachIteration override_options = Some b \<longrightarrow>
            same_prompt_each_iteration (state m) = b \<and> samePromptEachIteration a = b"
      and v5: "\<forall>x. r_model override_options = Some x \<and> x \<noteq> [] \<longrightarrow>
            model (codex (state m)) = Some x \<and> o_model (codexOptions a) = Some x"
      and frame: "loop_id (state m) = loop_id s" "history (state m) = history s"
        "session_id (codex (state m)) = session_id (codex s)" "iteration (state m) = iteration s"
    from s stored have eq_s: "s = stored_record" by simp
    from v1 o(1) have "max_iterations (state m) = 15" by simp
    moreover from v2 o(2) have "completion_promise (state m) = ''FINISHED''" by simp
    moreover from v3 o(3) have "promise_mode (state m) = ''plain''" by simp
    moreover from v4 o(4) have "same_prompt_each_iteration (state m)" by blast
    moreover from v5 o(5) have "model (codex (state m)) = Some ''o3''" by simp
    ultimately show ?thesis using frame eq_s rec by simp
  qed
  with eq stored show ?thesis by simp
qed

text \<open>
  C9 as stated fails for an empty override and for the flag that skips the repository
  check: resuming with the empty string as \<open>completion_promise\<close> persists the stored
  promise \<open>DONE\<close>, not the value supplied; and the record persisted with the flag is the
  record persisted without it.
\<close>

theorem C9_resume_overrides_counterexample:
  "r_completionPromise empty_promise_options = Some []
   \<and> completion_promise stored_record = ''DONE''
   \<and> \<not> isl (resume_step quiet_env demo_store empty_promise_options)
   \<and> saved (trace (fst (projr (resume_step quiet_env demo_store empty_promise_options))))
        = [state (fst (projr (resume_step quiet_env demo_store empty_promise_options)))]
   \<and> completion_promise (state (fst (projr (resume_step quiet_env demo_store empty_promise_options))))
        = ''DONE''
   \<and> completion_promise (state (fst (projr (resume_step quiet_env demo_store empty_promise_options))))
        \<noteq> []
   \<and> completionPromise (snd (projr (resume_step quiet_env demo_store empty_promise_options)))
        = ''DONE''
   \<and> r_skipGitRepoCheck skip_options
   \<and> \<not> r_skipGitRepoCheck no_options
   \<and> \<not> isl (resume_step quiet_env demo_store skip_options)
   \<and> state (fst (projr (resume_step quiet_env demo_store skip_options)))
        = state (fst (projr (resume_step quiet_env demo_store no_options)))"
  by (simp add: resume_eval skip_options_def Let_def)

text \<open>
  C10. Whenever tag-mode detection holds for a message and a token, plain-mode detection holds
  for the same message and token: the tag string \<open><promise>token</promise>\<close> contains the
  token. (Any mode name other than \<open>regex\<close> and \<open>tag\<close> takes the plain branch.)
\<close>

theorem C10_tag_implies_plain:
  "fst (detectCompletion RegExp message ''tag'' token) \<Longrightarrow>
   fst (detectCompletion RegExp message ''plain'' token)"
proof (cases message)
  case None
  then show "fst (detectCompletion RegExp message ''tag'' token) \<Longrightarrow> ?thesis"
    by (simp add: detectCompletion_def)
next
  case (Some msg)
  assume tag: "fst (detectCompletion RegExp message ''tag'' token)"
  show ?thesis
  proof (cases "msg = []")
    case True
    with Some tag show ?thesis by (simp add: detectCompletion_def)
  next
    case False
    with Some tag have "str_includes msg (''<promise>'' @ token @ ''</promise>'')"
      by (simp add: detectCompletion_def)
    then have "str_includes msg token" by (rule includes_infix)
    with Some False show ?thesis by (simp add: detectCompletion_def)
  qed
qed

theorem C10_tag_implies_plain_witness:
  "fst (detectCompletion (\<lambda>_. Inl []) (Some ''ok <promise>DONE</promise>'') ''tag'' ''DONE'')
   \<and> fst (detectCompletion (\<lambda>_. Inl []) (Some ''ok <promise>DONE</promise>'') ''plain'' ''DONE'')"
proof -
  have h: "fst (detectCompletion (\<lambda>_. Inl []) (Some ''ok <promise>DONE</promise>'') ''tag'' ''DONE'')"
    by (simp add: detectCompletion_def)
  from h C10_tag_implies_plain [OF h] show ?thesis by simp
qed


end
